theory Spec2Isabelle
  imports Main "HOL-Library.AList"
begin

section \<open>Data model (types.ts)\<close>

text \<open>
  The form graph, the fields and the data sources of the prefill-mapping application.
  JavaScript strings are modelled as \<open>string\<close>; the only string operation that looks
  inside a character is \<open>toUpperCase\<close>, modelled on ASCII.

  A \<open>FormGraph\<close> is a JavaScript object used as a dictionary. It is a plain object:
  its prototype is \<open>Object.prototype\<close>. It is modelled as the list of its own entries in
  the order \<open>Object.keys\<close> enumerates them. The lookup \<open>formGraph[id]\<close>, which also
  reaches the members inherited from the prototype, is \<open>get_property\<close> below.
\<close>

datatype FieldType = Text | Email | Date | Checkbox | Button | Object | Number

record FormField =
  field_id :: string
  field_label :: string
  field_type :: FieldType

record Form =
  form_id :: string
  form_name :: string
  form_fields :: "FormField list"
  dependencies :: "string list"

type_synonym FormGraph = "(string \<times> Form) list"

definition Object_keys :: "FormGraph \<Rightarrow> string list" where
  "Object_keys formGraph = map fst formGraph"

definition Object_values :: "FormGraph \<Rightarrow> Form list" where
  "Object_values formGraph = map snd formGraph"

record DataField =
  data_id :: string
  data_label :: string
  data_type :: FieldType
  data_path :: string

datatype DataSourceType = FormT | GlobalT | CustomT

record GlobalData =
  actionProperties :: "string list"
  clientOrgProperties :: "string list"

section \<open>JavaScript \<open>Set<string>\<close>\<close>

text \<open>
  A JavaScript Set iterates in insertion order, so it is a list without repetitions:
  \<open>add\<close> appends an element that is not there yet, \<open>delete\<close> removes it, and
  \<open>new Set(array)\<close> adds the elements of the array from left to right.
\<close>

definition Set_has :: "string \<Rightarrow> string list \<Rightarrow> bool" where
  "Set_has x s = (x \<in> set s)"

definition Set_add :: "string \<Rightarrow> string list \<Rightarrow> string list" where
  "Set_add x s = (if x \<in> set s then s else s @ [x])"

definition Set_delete :: "string \<Rightarrow> string list \<Rightarrow> string list" where
  "Set_delete x s = removeAll x s"

definition Set_of_array :: "string list \<Rightarrow> string list" where
  "Set_of_array xs = foldl (\<lambda>s x. Set_add x s) [] xs"

section \<open>Property lookup on the graph object\<close>

text \<open>
  \<open>formGraph[id]\<close> on a plain object finds an own property first and then walks the
  prototype chain, which for an object literal (and for \<open>const graph = {}\<close> filled by
  assignment, as \<open>useForms\<close> does) ends in \<open>Object.prototype\<close>. The lookup therefore has
  three outcomes: the form stored under the key (an own property of any name hides an
  inherited member of that name), a member inherited from \<open>Object.prototype\<close>, or
  \<open>undefined\<close>. \<open>Object_prototype_names\<close> lists the property names
  of \<open>Object.prototype\<close>. Every inherited member is a function or, for \<open>__proto__\<close>, the
  prototype object itself: it is truthy, so it passes a \<open>!form\<close> guard, and it has no
  \<open>dependencies\<close> property, so \<open>form.dependencies\<close> is \<open>undefined\<close>. Calling \<open>forEach\<close> on
  that, or iterating over it with \<open>for ... of\<close>, throws a \<open>TypeError\<close>, while
  \<open>new Set(undefined)\<close> is the empty set.
\<close>

datatype error = TypeError

definition Object_prototype_names :: "string list" where
  "Object_prototype_names =
     [''constructor'', ''__defineGetter__'', ''__defineSetter__'', ''hasOwnProperty'',
      ''__lookupGetter__'', ''__lookupSetter__'', ''isPrototypeOf'',
      ''propertyIsEnumerable'', ''toString'', ''valueOf'', ''__proto__'',
      ''toLocaleString'']"

datatype property = Undefined | Inherited | OwnForm Form

definition get_property :: "FormGraph \<Rightarrow> string \<Rightarrow> property" where
  "get_property formGraph key =
     (case map_of formGraph key of
        Some form \<Rightarrow> OwnForm form
      | None \<Rightarrow> if key \<in> set Object_prototype_names then Inherited else Undefined)"

section \<open>Dependency resolver (dagTraversal.ts)\<close>

text \<open>
  \<open>getDependencies\<close>: the \<open>while (queue.length > 0)\<close> loop. Its state is the queue, the
  visited set and the result set. The loop is not structurally recursive, so the model
  returns an option: \<open>None\<close> stands for a loop that never ends, \<open>Some (Inl TypeError)\<close>
  for the exception that leaves the function, \<open>Some (Inr deps)\<close> for the returned set.
  The \<open>forEach\<close> over the dependencies of the current form adds each identifier to the
  result and pushes it on the queue; on an inherited member it throws.
\<close>

partial_function (option) bfs_loop ::
  "FormGraph \<Rightarrow> string list \<Rightarrow> string list \<Rightarrow> string list
     \<Rightarrow> (error + string list) option" where
  "bfs_loop formGraph queue visited deps =
     (case queue of
        [] \<Rightarrow> Some (Inr deps)
      | currentFormId # rest \<Rightarrow>
          if Set_has currentFormId visited then bfs_loop formGraph rest visited deps
          else (case get_property formGraph currentFormId of
                  Undefined \<Rightarrow> bfs_loop formGraph rest (Set_add currentFormId visited) deps
                | Inherited \<Rightarrow> Some (Inl TypeError)
                | OwnForm currentForm \<Rightarrow>
                    bfs_loop formGraph (rest @ dependencies currentForm)
                      (Set_add currentFormId visited)
                      (foldl (\<lambda>s depId. Set_add depId s) deps (dependencies currentForm))))"

declare bfs_loop.simps [code]

definition getDependencies :: "string \<Rightarrow> FormGraph \<Rightarrow> (error + string list) option" where
  "getDependencies targetFormId formGraph = bfs_loop formGraph [targetFormId] [] []"

text \<open>
  \<open>getDirectDependencies\<close> never throws: on an inherited member it builds
  \<open>new Set(undefined)\<close>, the empty set.
\<close>

definition getDirectDependencies :: "string \<Rightarrow> FormGraph \<Rightarrow> string list" where
  "getDirectDependencies targetFormId formGraph =
     (case get_property formGraph targetFormId of
        Undefined \<Rightarrow> []
      | Inherited \<Rightarrow> Set_of_array []
      | OwnForm form \<Rightarrow> Set_of_array (dependencies form))"

definition getTransitiveDependencies ::
  "string \<Rightarrow> FormGraph \<Rightarrow> (error + string list) option" where
  "getTransitiveDependencies targetFormId formGraph =
     (case getDependencies targetFormId formGraph of
        None \<Rightarrow> None
      | Some (Inl e) \<Rightarrow> Some (Inl e)
      | Some (Inr allDependencies) \<Rightarrow>
          Some (Inr (foldl (\<lambda>s depId. Set_delete depId s) allDependencies
                       (getDirectDependencies targetFormId formGraph))))"

text \<open>
  \<open>hasCircularDependencies\<close>: the inner function \<open>hasCycle\<close> calls itself from inside its
  \<open>for\<close> loop, and both share the sets \<open>visited\<close> and \<open>recursionStack\<close>, which are
  passed along as a pair. The first argument bounds the depth of the call stack:
  \<open>None\<close> means that the bound was reached. \<open>hasCycle_deps\<close> is the \<open>for\<close> loop over the
  dependencies of one form, \<open>keys_loop\<close> the loop over \<open>Object.keys(formGraph)\<close>. The
  \<open>for ... of\<close> over the \<open>dependencies\<close> of an inherited member throws; nothing catches
  the exception, so it leaves \<open>hasCircularDependencies\<close>.
\<close>

fun hasCycle ::
    "nat \<Rightarrow> FormGraph \<Rightarrow> string \<Rightarrow> string list \<times> string list
       \<Rightarrow> (error + bool \<times> string list \<times> string list) option"
  and hasCycle_deps ::
    "nat \<Rightarrow> FormGraph \<Rightarrow> string list \<Rightarrow> string list \<times> string list
       \<Rightarrow> (error + bool \<times> string list \<times> string list) option" where
  "hasCycle 0 formGraph formId (visited, recursionStack) = None"
| "hasCycle (Suc depth) formGraph formId (visited, recursionStack) =
     (case get_property formGraph formId of
        Undefined \<Rightarrow>
          Some (Inr (False, Set_add formId visited,
                     Set_delete formId (Set_add formId recursionStack)))
      | Inherited \<Rightarrow> Some (Inl TypeError)
      | OwnForm form \<Rightarrow>
          (case hasCycle_deps depth formGraph (dependencies form)
                  (Set_add formId visited, Set_add formId recursionStack) of
             None \<Rightarrow> None
           | Some (Inl e) \<Rightarrow> Some (Inl e)
           | Some (Inr (True, st)) \<Rightarrow> Some (Inr (True, st))
           | Some (Inr (False, visited', recursionStack')) \<Rightarrow>
               Some (Inr (False, visited', Set_delete formId recursionStack'))))"
| "hasCycle_deps depth formGraph [] (visited, recursionStack) =
     Some (Inr (False, visited, recursionStack))"
| "hasCycle_deps depth formGraph (depId # rest) (visited, recursionStack) =
     (if \<not> Set_has depId visited then
        (case hasCycle depth formGraph depId (visited, recursionStack) of
           None \<Rightarrow> None
         | Some (Inl e) \<Rightarrow> Some (Inl e)
         | Some (Inr (True, st)) \<Rightarrow> Some (Inr (True, st))
         | Some (Inr (False, st)) \<Rightarrow> hasCycle_deps depth formGraph rest st)
      else if Set_has depId recursionStack then Some (Inr (True, visited, recursionStack))
      else hasCycle_deps depth formGraph rest (visited, recursionStack))"

fun keys_loop ::
  "nat \<Rightarrow> FormGraph \<Rightarrow> string list \<Rightarrow> string list \<times> string list
     \<Rightarrow> (error + bool) option" where
  "keys_loop depth formGraph [] (visited, recursionStack) = Some (Inr False)"
| "keys_loop depth formGraph (formId # rest) (visited, recursionStack) =
     (if \<not> Set_has formId visited then
        (case hasCycle depth formGraph formId (visited, recursionStack) of
           None \<Rightarrow> None
         | Some (Inl e) \<Rightarrow> Some (Inl e)
         | Some (Inr (True, st)) \<Rightarrow> Some (Inr True)
         | Some (Inr (False, st)) \<Rightarrow> keys_loop depth formGraph rest st)
      else keys_loop depth formGraph rest (visited, recursionStack))"

definition hasCircularDependencies :: "nat \<Rightarrow> FormGraph \<Rightarrow> (error + bool) option" where
  "hasCircularDependencies depth formGraph =
     keys_loop depth formGraph (Object_keys formGraph) ([], [])"

section \<open>Data sources and their registry (dataSourceRegistry.ts)\<close>

text \<open>
  The string methods \<open>formatPropertyName\<close> uses. \<open>split\<close> scans the string and
  closes the current token at every separator, so the empty string has the one token
  \<open>""\<close>; \<open>charAt\<close> past the end is the empty string; \<open>slice\<close> is used with a start
  index only; \<open>join\<close> puts the separator between the elements. \<open>toUpperCase\<close> is
  modelled on ASCII, where it maps \<open>a\<close> to \<open>z\<close> to \<open>A\<close> to \<open>Z\<close> and leaves every other
  character as it is.
\<close>

fun split_from :: "char \<Rightarrow> string \<Rightarrow> string \<Rightarrow> string list" where
  "split_from sep tok [] = [tok]"
| "split_from sep tok (c # cs) =
     (if c = sep then tok # split_from sep [] cs else split_from sep (tok @ [c]) cs)"

definition split :: "string \<Rightarrow> char \<Rightarrow> string list" where
  "split s sep = split_from sep [] s"

definition toUpperCase_char :: "char \<Rightarrow> char" where
  "toUpperCase_char c =
     (let n = (of_char c :: nat) in if 97 \<le> n \<and> n \<le> 122 then char_of (n - 32) else c)"

definition toUpperCase :: "string \<Rightarrow> string" where
  "toUpperCase s = map toUpperCase_char s"

definition charAt :: "string \<Rightarrow> nat \<Rightarrow> string" where
  "charAt s i = take 1 (drop i s)"

definition slice :: "string \<Rightarrow> nat \<Rightarrow> string" where
  "slice s i = drop i s"

fun join :: "string list \<Rightarrow> string \<Rightarrow> string" where
  "join [] sep = []"
| "join [w] sep = w"
| "join (w # ws) sep = w @ sep @ join ws sep"

definition formatPropertyName :: "string \<Rightarrow> string" where
  "formatPropertyName prop =
     join (map (\<lambda>word. toUpperCase (charAt word 0) @ slice word 1) (split prop CHR ''_''))
       '' ''"

text \<open>
  The three classes that implement \<open>DataSource\<close>, as one datatype; the readonly members
  \<open>id\<close>, \<open>name\<close> and \<open>type\<close> and the method \<open>getFields\<close> dispatch on the class.
\<close>

datatype DataSource =
    FormDataSource string string Form
  | GlobalDataSource GlobalData
  | OrganizationDataSource GlobalData

fun DataSource_id :: "DataSource \<Rightarrow> string" where
  "DataSource_id (FormDataSource i n form) = i"
| "DataSource_id (GlobalDataSource globalData) = ''global-action-properties''"
| "DataSource_id (OrganizationDataSource globalData) = ''global-org-properties''"

fun DataSource_name :: "DataSource \<Rightarrow> string" where
  "DataSource_name (FormDataSource i n form) = n"
| "DataSource_name (GlobalDataSource globalData) = ''Action Properties''"
| "DataSource_name (OrganizationDataSource globalData) = ''Organization Properties''"

fun DataSource_type :: "DataSource \<Rightarrow> DataSourceType" where
  "DataSource_type (FormDataSource i n form) = FormT"
| "DataSource_type (GlobalDataSource globalData) = GlobalT"
| "DataSource_type (OrganizationDataSource globalData) = GlobalT"

fun getFields :: "DataSource \<Rightarrow> DataField list" where
  "getFields (FormDataSource i n form) =
     map (\<lambda>field. \<lparr>data_id = field_id field, data_label = field_label field,
                    data_type = field_type field, data_path = n @ ''.'' @ field_label field\<rparr>)
       (form_fields form)"
| "getFields (GlobalDataSource globalData) =
     map (\<lambda>prop. \<lparr>data_id = prop, data_label = formatPropertyName prop,
                   data_type = Text, data_path = ''Action.'' @ formatPropertyName prop\<rparr>)
       (actionProperties globalData)"
| "getFields (OrganizationDataSource globalData) =
     map (\<lambda>prop. \<lparr>data_id = prop, data_label = formatPropertyName prop,
                   data_type = Text, data_path = ''clientOrg.'' @ formatPropertyName prop\<rparr>)
       (clientOrgProperties globalData)"

text \<open>
  \<open>DataSourceRegistry\<close> holds a JavaScript \<open>Map\<close> from identifier to source. A Map
  iterates in insertion order, and \<open>set\<close> on a key that is there replaces the value
  where it stands: this is \<open>AList.update\<close> on the list of entries.
\<close>

type_synonym DataSourceRegistry = "(string \<times> DataSource) list"

definition register :: "DataSource \<Rightarrow> DataSourceRegistry \<Rightarrow> DataSourceRegistry" where
  "register source sources = AList.update (DataSource_id source) source sources"

definition getAll :: "DataSourceRegistry \<Rightarrow> DataSource list" where
  "getAll sources = map snd sources"

definition get :: "DataSourceRegistry \<Rightarrow> string \<Rightarrow> DataSource option" where
  "get sources i = map_of sources i"

definition clear :: "DataSourceRegistry \<Rightarrow> DataSourceRegistry" where
  "clear sources = []"

definition getByType :: "DataSourceRegistry \<Rightarrow> DataSourceType \<Rightarrow> DataSource list" where
  "getByType sources ty = filter (\<lambda>source. DataSource_type source = ty) (getAll sources)"

section \<open>Source categorizer (useDataSources.ts)\<close>

text \<open>
  The body of the hook. \<open>useMemo\<close> only caches the value, so the result is a function
  of the three arguments; an exception thrown by \<open>getTransitiveDependencies\<close> leaves the
  hook. The target is \<open>string | null\<close>; \<open>!targetFormId\<close> holds for
  \<open>null\<close> and for the empty string. \<open>registerForms\<close> is the \<open>forEach\<close> over
  \<open>Object.values(formGraph)\<close> that registers one form-backed source per form, under
  the form's own \<open>id\<close>; \<open>registerGlobals\<close> is the \<open>if (globalData)\<close> block that registers
  the two global sources. The two \<open>Array.from(...).map(...).filter(...)\<close> chains keep,
  in the order of the identifier set, the sources the registry finds.
\<close>

record CategorizedDataSources =
  directDependencies :: "DataSource list"
  transitiveDependencies :: "DataSource list"
  globalSources :: "DataSource list"

definition registerForms :: "FormGraph \<Rightarrow> DataSourceRegistry \<Rightarrow> DataSourceRegistry" where
  "registerForms formGraph registry =
     foldl (\<lambda>r form. register (FormDataSource (form_id form) (form_name form) form) r)
       registry (Object_values formGraph)"

definition registerGlobals :: "GlobalData option \<Rightarrow> DataSourceRegistry \<Rightarrow> DataSourceRegistry" where
  "registerGlobals globalData registry =
     (case globalData of
        None \<Rightarrow> registry
      | Some gd \<Rightarrow> register (OrganizationDataSource gd) (register (GlobalDataSource gd) registry))"

definition useDataSources ::
  "string option \<Rightarrow> FormGraph \<Rightarrow> GlobalData option
     \<Rightarrow> (error + CategorizedDataSources) option" where
  "useDataSources targetFormId formGraph globalData =
     (let registry = [] in
      case targetFormId of
        None \<Rightarrow>
          Some (Inr \<lparr>directDependencies = [], transitiveDependencies = [],
                     globalSources = []\<rparr>)
      | Some target \<Rightarrow>
          if target = [] then
            Some (Inr \<lparr>directDependencies = [], transitiveDependencies = [],
                       globalSources = []\<rparr>)
          else
            let registry = registerGlobals globalData (registerForms formGraph registry);
                directDeps = getDirectDependencies target formGraph
            in case getTransitiveDependencies target formGraph of
                 None \<Rightarrow> None
               | Some (Inl e) \<Rightarrow> Some (Inl e)
               | Some (Inr transitiveDeps) \<Rightarrow>
                   Some (Inr \<lparr>directDependencies = List.map_filter (get registry) directDeps,
                              transitiveDependencies =
                                List.map_filter (get registry) transitiveDeps,
                              globalSources = getByType registry GlobalT\<rparr>))"

section \<open>Graph vocabulary for the statements\<close>

text \<open>
  \<open>graph_nodes\<close> lists every identifier that occurs in the graph, as a key or in a
  dependency list. \<open>dep_edges\<close> is the dependency relation the traversals follow:
  an edge leaves a key of the graph and enters each identifier its form names.
  \<open>present_edges\<close> keeps the edges whose two ends are forms of the graph, and a
  dependency cycle among the forms present is a cycle of \<open>present_edges\<close>.
\<close>

definition graph_nodes :: "FormGraph \<Rightarrow> string list" where
  "graph_nodes formGraph =
     Object_keys formGraph @ concat (map dependencies (Object_values formGraph))"

definition dep_edges :: "FormGraph \<Rightarrow> (string \<times> string) set" where
  "dep_edges formGraph =
     {(a, b). \<exists>form. map_of formGraph a = Some form \<and> b \<in> set (dependencies form)}"

definition present_edges :: "FormGraph \<Rightarrow> (string \<times> string) set" where
  "present_edges formGraph =
     {(a, b). \<exists>form. map_of formGraph a = Some form \<and> b \<in> set (dependencies form)
                \<and> map_of formGraph b \<noteq> None}"

definition cyclic :: "FormGraph \<Rightarrow> bool" where
  "cyclic formGraph = (\<exists>a. (a, a) \<in> (dep_edges formGraph)\<^sup>+)"

definition has_dependency_cycle :: "FormGraph \<Rightarrow> bool" where
  "has_dependency_cycle formGraph = (\<exists>a. (a, a) \<in> (present_edges formGraph)\<^sup>+)"

text \<open>
  \<open>no_inherited_names\<close> holds of a graph when no identifier that occurs in it, as a key
  or in a dependency list, is looked up in \<open>Object.prototype\<close>: each is a key of the
  graph or is not the name of an inherited member.
\<close>

definition no_inherited_names :: "FormGraph \<Rightarrow> bool" where
  "no_inherited_names formGraph =
     list_all (\<lambda>x. get_property formGraph x \<noteq> Inherited) (graph_nodes formGraph)"

text \<open>
  What a run of the breadth-first loop over identifiers of the set \<open>U\<close> that started with
  the result set \<open>d\<close> has achieved: it ended; when it returned, the result keeps what
  was collected; when it threw, an identifier of \<open>U\<close> is the name of an inherited member.
\<close>

definition bfs_post ::
  "FormGraph \<Rightarrow> string set \<Rightarrow> string list \<Rightarrow> (error + string list) option \<Rightarrow> bool" where
  "bfs_post g U d res =
     (case res of
        None \<Rightarrow> False
      | Some (Inl e) \<Rightarrow> (\<exists>x \<in> U. get_property g x = Inherited)
      | Some (Inr r) \<Rightarrow> set d \<subseteq> set r)"

text \<open>
  The invariant of the depth-first search over the sets \<open>V\<close> of visited and \<open>S\<close> of
  identifiers on the recursion stack: the stack is visited, and the finished
  identifiers (visited, not on the stack) only name finished identifiers and lie on no
  cycle. \<open>dfs_post\<close> is what a call that started from \<open>V\<close> and \<open>S\<close> and had to finish the
  identifiers \<open>D\<close> has achieved: it ended; if it threw, the graph names an inherited
  member; if it returned, either it reports a cycle that exists, or it finished \<open>D\<close>,
  kept the stack and the invariant.
\<close>

definition dfs_inv :: "FormGraph \<Rightarrow> string set \<Rightarrow> string set \<Rightarrow> bool" where
  "dfs_inv g V S =
     (S \<subseteq> V \<and> (\<forall>x \<in> V - S. \<forall>y. (x, y) \<in> dep_edges g \<longrightarrow> y \<in> V - S)
            \<and> (\<forall>x \<in> V - S. (x, x) \<notin> (dep_edges g)\<^sup>+))"

definition dfs_post ::
  "FormGraph \<Rightarrow> string set \<Rightarrow> string set \<Rightarrow> string set
     \<Rightarrow> (error + bool \<times> string list \<times> string list) option \<Rightarrow> bool" where
  "dfs_post g V S D res =
     (case res of
        None \<Rightarrow> False
      | Some (Inl e) \<Rightarrow> \<not> no_inherited_names g
      | Some (Inr (b, vis', stk')) \<Rightarrow>
          if b then cyclic g
          else V \<subseteq> set vis' \<and> D \<subseteq> set vis' - S \<and> set stk' = S \<and> dfs_inv g (set vis') S)"

text \<open>
  What the loop over the keys has achieved when it ends, for the set \<open>K\<close> of keys it had
  to examine: if it threw, the graph names an inherited member; if it returned true, a
  cycle exists; if it returned false, no key of \<open>K\<close> lies on a cycle.
\<close>

definition keys_post :: "FormGraph \<Rightarrow> string set \<Rightarrow> (error + bool) option \<Rightarrow> bool" where
  "keys_post g K res =
     (case res of
        None \<Rightarrow> False
      | Some (Inl e) \<Rightarrow> \<not> no_inherited_names g
      | Some (Inr b) \<Rightarrow>
          if b then cyclic g else (\<forall>a \<in> K. (a, a) \<notin> (dep_edges g)\<^sup>+))"

text \<open>
  Title Case in the words of the specification: split on underscore, upper-case the
  first letter of each token, rejoin with single spaces. \<open>tokens\<close> reads the string from
  the right: an underscore opens a new token, any other character joins the first one.
\<close>

definition tokens :: "string \<Rightarrow> string list" where
  "tokens s =
     foldr (\<lambda>c acc. if c = CHR ''_'' then [] # acc else (c # hd acc) # tl acc) s [[]]"

fun capitalize :: "string \<Rightarrow> string" where
  "capitalize [] = []"
| "capitalize (c # cs) = toUpperCase_char c # cs"

definition title_case :: "string \<Rightarrow> string" where
  "title_case s =
     (case map capitalize (tokens s) of
        [] \<Rightarrow> []
      | w # ws \<Rightarrow> w @ concat (map (\<lambda>v. '' '' @ v) ws))"

text \<open>
  What every registry built by \<open>register\<close> satisfies: a source stands under its own
  identifier.
\<close>

definition registry_ok :: "DataSourceRegistry \<Rightarrow> bool" where
  "registry_ok r = (\<forall>(k, s) \<in> set r. DataSource_id s = k)"

section \<open>Sets as lists\<close>

lemma set_Set_add [simp]: "set (Set_add x s) = insert x (set s)"
  by (auto simp: Set_add_def)

lemma set_Set_delete [simp]: "set (Set_delete x s) = set s - {x}"
  by (simp add: Set_delete_def)

lemma Set_has_iff [simp]: "Set_has x s = (x \<in> set s)"
  by (simp add: Set_has_def)

lemma set_foldl_Set_add [simp]:
  "set (foldl (\<lambda>s x. Set_add x s) acc xs) = set acc \<union> set xs"
  by (induction xs arbitrary: acc) auto

lemma set_foldl_Set_delete [simp]:
  "set (foldl (\<lambda>s x. Set_delete x s) acc xs) = set acc - set xs"
  by (induction xs arbitrary: acc) auto

lemma set_Set_of_array [simp]: "set (Set_of_array xs) = set xs"
  by (simp add: Set_of_array_def)

section \<open>Lookup and the edges of the graph\<close>

lemma get_property_OwnForm: "get_property g k = OwnForm form \<longleftrightarrow> map_of g k = Some form"
  by (simp add: get_property_def split: option.splits)

lemma get_property_Undefined:
  "get_property g k = Undefined \<longleftrightarrow> map_of g k = None \<and> k \<notin> set Object_prototype_names"
  by (simp add: get_property_def split: option.splits)

lemma get_property_Inherited:
  "get_property g k = Inherited \<longleftrightarrow> map_of g k = None \<and> k \<in> set Object_prototype_names"
  by (simp add: get_property_def split: option.splits)

lemma map_of_graph_nodes:
  assumes "map_of g k = Some form"
  shows "k \<in> set (graph_nodes g)" and "set (dependencies form) \<subseteq> set (graph_nodes g)"
proof -
  from assms have mem: "(k, form) \<in> set g" by (rule map_of_SomeD)
  then have "k \<in> fst ` set g" by force
  then show "k \<in> set (graph_nodes g)" by (simp add: graph_nodes_def Object_keys_def)
  from mem have "form \<in> snd ` set g" by force
  then show "set (dependencies form) \<subseteq> set (graph_nodes g)"
    by (auto simp: graph_nodes_def Object_values_def)
qed

lemma no_inherited_namesD:
  "no_inherited_names g \<Longrightarrow> x \<in> set (graph_nodes g) \<Longrightarrow> get_property g x \<noteq> Inherited"
  by (simp add: no_inherited_names_def list_all_iff)

lemma closed_rtrancl:
  assumes "(x, y) \<in> E\<^sup>*" and "x \<in> B" and "\<And>u v. u \<in> B \<Longrightarrow> (u, v) \<in> E \<Longrightarrow> v \<in> B"
  shows "y \<in> B"
  using assms(1,2)
proof (induction rule: rtrancl_induct)
  case base
  then show ?case .
next
  case (step u v)
  from assms(3)[OF step.IH[OF step.prems] step.hyps(2)] show ?case .
qed

section \<open>The breadth-first loop ends\<close>

lemma bfs_loop_Nil: "bfs_loop g [] v d = Some (Inr d)"
  by (subst bfs_loop.simps) simp

lemma bfs_loop_Cons:
  "bfs_loop g (c # rest) v d =
     (if c \<in> set v then bfs_loop g rest v d
      else (case get_property g c of
              Undefined \<Rightarrow> bfs_loop g rest (Set_add c v) d
            | Inherited \<Rightarrow> Some (Inl TypeError)
            | OwnForm form \<Rightarrow>
                bfs_loop g (rest @ dependencies form) (Set_add c v)
                  (foldl (\<lambda>s depId. Set_add depId s) d (dependencies form))))"
  by (subst bfs_loop.simps) simp

text \<open>
  Every pass either ends the loop, shortens the queue or marks an identifier of the
  finite set \<open>U\<close> that was not marked before, so the loop ends.
\<close>

lemma bfs_loop_total:
  assumes "finite U"
    and "\<And>k form. get_property g k = OwnForm form \<Longrightarrow> set (dependencies form) \<subseteq> U"
  shows "set q \<subseteq> U \<Longrightarrow> bfs_post g U d (bfs_loop g q v d)"
proof (induction "card (U - set v)" arbitrary: q v d rule: less_induct)
  case less
  show ?case using less.prems
  proof (induction q arbitrary: d)
    case Nil
    then show ?case by (simp add: bfs_loop_Nil bfs_post_def)
  next
    case (Cons c rest)
    show ?case
    proof (cases "c \<in> set v")
      case True
      then show ?thesis using Cons by (simp add: bfs_loop_Cons)
    next
      case False
      have cU: "c \<in> U" using Cons.prems by simp
      have lt: "card (U - set (Set_add c v)) < card (U - set v)"
      proof (rule psubset_card_mono)
        show "finite (U - set v)" using assms(1) by simp
        show "U - set (Set_add c v) \<subset> U - set v" using False cU by auto
      qed
      show ?thesis
      proof (cases "get_property g c")
        case Undefined
        have "set rest \<subseteq> U" using Cons.prems by simp
        from less.hyps[OF lt this, of d]
        show ?thesis using False Undefined by (simp add: bfs_loop_Cons)
      next
        case Inherited
        then show ?thesis using False cU by (auto simp: bfs_loop_Cons bfs_post_def)
      next
        case (OwnForm form)
        let ?d = "foldl (\<lambda>s depId. Set_add depId s) d (dependencies form)"
        have "set (rest @ dependencies form) \<subseteq> U"
          using Cons.prems assms(2)[OF OwnForm] by simp
        from less.hyps[OF lt this, of ?d]
        have "bfs_post g U ?d (bfs_loop g (rest @ dependencies form) (Set_add c v) ?d)" .
        then have "bfs_post g U d (bfs_loop g (rest @ dependencies form) (Set_add c v) ?d)"
          by (auto simp: bfs_post_def split: option.splits sum.splits)
        then show ?thesis using False OwnForm by (simp add: bfs_loop_Cons)
      qed
    qed
  qed
qed

lemma getDependencies_ends:
  "\<exists>res. getDependencies t g = Some res
     \<and> (case res of
          Inl e \<Rightarrow> get_property g t = Inherited \<or> \<not> no_inherited_names g
        | Inr r \<Rightarrow> set (getDirectDependencies t g) \<subseteq> set r)"
proof (cases "get_property g t")
  case Undefined
  then show ?thesis
    by (simp add: getDependencies_def getDirectDependencies_def bfs_loop_Cons bfs_loop_Nil)
next
  case Inherited
  then show ?thesis by (simp add: getDependencies_def bfs_loop_Cons)
next
  case (OwnForm form)
  let ?U = "set (graph_nodes g)"
  let ?d = "foldl (\<lambda>s depId. Set_add depId s) [] (dependencies form)"
  have own: "map_of g t = Some form" using OwnForm by (simp add: get_property_OwnForm)
  have post: "bfs_post g ?U ?d (bfs_loop g (dependencies form) (Set_add t []) ?d)"
  proof (rule bfs_loop_total)
    show "finite ?U" by simp
    show "\<And>k f. get_property g k = OwnForm f \<Longrightarrow> set (dependencies f) \<subseteq> ?U"
      by (simp add: get_property_OwnForm map_of_graph_nodes(2))
    show "set (dependencies form) \<subseteq> ?U" using own by (rule map_of_graph_nodes(2))
  qed
  have eq: "getDependencies t g = bfs_loop g (dependencies form) (Set_add t []) ?d"
    using OwnForm by (simp add: getDependencies_def bfs_loop_Cons)
  have direct: "set (getDirectDependencies t g) = set (dependencies form)"
    using OwnForm by (simp add: getDirectDependencies_def)
  show ?thesis
  proof (cases "bfs_loop g (dependencies form) (Set_add t []) ?d")
    case None
    then show ?thesis using post by (simp add: bfs_post_def)
  next
    case (Some res)
    show ?thesis
    proof (cases res)
      case (Inl e)
      from post Some Inl obtain x where "x \<in> ?U" and "get_property g x = Inherited"
        by (auto simp: bfs_post_def)
      then have "\<not> no_inherited_names g" using no_inherited_namesD by blast
      then show ?thesis unfolding eq Some using Inl by simp
    next
      case (Inr r)
      then show ?thesis unfolding eq Some direct using post Some by (simp add: bfs_post_def)
    qed
  qed
qed

text \<open>
  What the loop collects when it returns: exactly the identifiers that a path of one or
  more dependency edges reaches from the target. The target itself is collected when,
  and only when, such a path leads back to it.
\<close>

lemma bfs_loop_reach:
  assumes "bfs_loop g q v d = Some (Inr r)"
    and "set q \<subseteq> (dep_edges g)\<^sup>* `` {t}"
    and "set d \<subseteq> (dep_edges g)\<^sup>+ `` {t}"
    and "\<forall>x \<in> set v. dep_edges g `` {x} \<subseteq> set d \<and> dep_edges g `` {x} \<subseteq> set v \<union> set q"
    and "t \<in> set v \<union> set q"
  shows "set r = (dep_edges g)\<^sup>+ `` {t}"
proof -
  have "bfs_loop g q v d = Some res \<Longrightarrow> res = Inr r
      \<Longrightarrow> set q \<subseteq> (dep_edges g)\<^sup>* `` {t}
      \<Longrightarrow> set d \<subseteq> (dep_edges g)\<^sup>+ `` {t}
      \<Longrightarrow> \<forall>x \<in> set v. dep_edges g `` {x} \<subseteq> set d \<and> dep_edges g `` {x} \<subseteq> set v \<union> set q
      \<Longrightarrow> t \<in> set v \<union> set q
      \<Longrightarrow> set r = (dep_edges g)\<^sup>+ `` {t}" for res
  proof (induction arbitrary: t r rule: bfs_loop.raw_induct[rotated 1, consumes 1, case_names step])
    case (step loop g q v d res)
    let ?E = "dep_edges g"
    show ?case
    proof (cases q)
      case Nil
      have r: "r = d" using step.hyps step.prems(1) Nil by simp
      have closed: "\<And>a b. a \<in> set v \<Longrightarrow> (a, b) \<in> ?E \<Longrightarrow> b \<in> set v"
        using step.prems(4) Nil by auto
      have tv: "t \<in> set v" using step.prems(5) Nil by simp
      have "?E\<^sup>+ `` {t} \<subseteq> set d"
      proof
        fix y assume "y \<in> ?E\<^sup>+ `` {t}"
        then have "(t, y) \<in> ?E\<^sup>+" by simp
        then obtain x where tx: "(t, x) \<in> ?E\<^sup>*" and xy: "(x, y) \<in> ?E"
          by (blast dest: tranclD2)
        have "x \<in> set v" using tx tv closed by (rule closed_rtrancl)
        then show "y \<in> set d" using step.prems(4) xy by auto
      qed
      then show ?thesis using step.prems(3) r by blast
    next
      case (Cons c rest)
      have cq: "(t, c) \<in> ?E\<^sup>*" using step.prems(2) Cons by simp
      have restq: "set rest \<subseteq> ?E\<^sup>* `` {t}" using step.prems(2) Cons by simp
      show ?thesis
      proof (cases "c \<in> set v")
        case True
        have call: "loop g rest v d = Some res" using step.hyps Cons True by simp
        have "set v \<union> set q = set v \<union> set rest" using Cons True by auto
        then have 4: "\<forall>x \<in> set v. ?E `` {x} \<subseteq> set d \<and> ?E `` {x} \<subseteq> set v \<union> set rest"
          and 5: "t \<in> set v \<union> set rest"
          using step.prems(4,5) by simp_all
        show ?thesis by (rule step.IH[OF call step.prems(1) restq step.prems(3) 4 5])
      next
        case False
        show ?thesis
        proof (cases "get_property g c")
          case Undefined
          have call: "loop g rest (Set_add c v) d = Some res"
            using step.hyps Cons False Undefined by simp
          have nosucc: "?E `` {c} = {}"
            using Undefined by (auto simp: dep_edges_def get_property_Undefined)
          have 4: "\<forall>x \<in> set (Set_add c v). ?E `` {x} \<subseteq> set d
              \<and> ?E `` {x} \<subseteq> set (Set_add c v) \<union> set rest"
            using step.prems(4) nosucc Cons by auto
          have 5: "t \<in> set (Set_add c v) \<union> set rest" using step.prems(5) Cons by auto
          show ?thesis by (rule step.IH[OF call step.prems(1) restq step.prems(3) 4 5])
        next
          case Inherited
          then have "res = Inl TypeError" using step.hyps Cons False by simp
          then show ?thesis using step.prems(1) by simp
        next
          case (OwnForm form)
          let ?d = "foldl (\<lambda>s depId. Set_add depId s) d (dependencies form)"
          have call: "loop g (rest @ dependencies form) (Set_add c v) ?d = Some res"
            using step.hyps Cons False OwnForm by simp
          have succ: "?E `` {c} = set (dependencies form)"
            using OwnForm by (auto simp: dep_edges_def get_property_OwnForm)
          have reach: "set (dependencies form) \<subseteq> ?E\<^sup>+ `` {t}"
          proof
            fix y assume "y \<in> set (dependencies form)"
            then have "(c, y) \<in> ?E" using succ by blast
            with cq have "(t, y) \<in> ?E\<^sup>+" by (rule rtrancl_into_trancl1)
            then show "y \<in> ?E\<^sup>+ `` {t}" by simp
          qed
          have 2: "set (rest @ dependencies form) \<subseteq> ?E\<^sup>* `` {t}"
            using restq reach by (auto dest: trancl_into_rtrancl)
          have 3: "set ?d \<subseteq> ?E\<^sup>+ `` {t}" using step.prems(3) reach by simp
          have 4: "\<forall>x \<in> set (Set_add c v). ?E `` {x} \<subseteq> set ?d
              \<and> ?E `` {x} \<subseteq> set (Set_add c v) \<union> set (rest @ dependencies form)"
            using step.prems(4) succ Cons by auto
          have 5: "t \<in> set (Set_add c v) \<union> set (rest @ dependencies form)"
            using step.prems(5) Cons by auto
          show ?thesis by (rule step.IH[OF call step.prems(1) 2 3 4 5])
        qed
      qed
    qed
  qed
  from this[OF assms(1) refl assms(2-5)] show ?thesis .
qed

lemma getDependencies_reachable:
  assumes "getDependencies t g = Some (Inr r)"
  shows "set r = (dep_edges g)\<^sup>+ `` {t}"
proof -
  from assms have "bfs_loop g [t] [] [] = Some (Inr r)" by (simp add: getDependencies_def)
  then show ?thesis by (rule bfs_loop_reach) simp_all
qed

lemma getDependencies_target_iff:
  "getDependencies t g = Some (Inr r) \<Longrightarrow> (t \<in> set r \<longleftrightarrow> (t, t) \<in> (dep_edges g)\<^sup>+)"
  using getDependencies_reachable[of t g r] by auto

section \<open>Claims about the resolver\<close>

text \<open>
  C1. The claim is that the target is never a member of what \<open>getDependencies\<close>
  returns, also on a cyclic graph or when a dependency list names the target. On the
  graph where A depends on B and B depends on A, the function called for A returns the
  set B, A: the loop adds every identifier a visited form names, and B names A. On the
  graph where A depends on A, it returns the set A.
\<close>

theorem getDependencies_cycle_has_target:
  "getDependencies ''A''
     [(''A'', \<lparr>form_id = ''A'', form_name = ''Form A'', form_fields = [],
               dependencies = [''B'']\<rparr>),
      (''B'', \<lparr>form_id = ''B'', form_name = ''Form B'', form_fields = [],
               dependencies = [''A'']\<rparr>)]
   = Some (Inr [''B'', ''A''])
   \<and> getDependencies ''A''
     [(''A'', \<lparr>form_id = ''A'', form_name = ''Form A'', form_fields = [],
               dependencies = [''A'']\<rparr>)]
   = Some (Inr [''A''])"
  by code_simp



section \<open>The depth-first search is correct\<close>

lemma dep_edges_nodes: "(a, b) \<in> dep_edges g \<Longrightarrow> b \<in> set (graph_nodes g)"
proof -
  assume "(a, b) \<in> dep_edges g"
  then obtain form where f: "map_of g a = Some form" and b: "b \<in> set (dependencies form)"
    by (auto simp: dep_edges_def)
  from f have "(a, form) \<in> set g" by (rule map_of_SomeD)
  then have "form \<in> set (Object_values g)" by (force simp: Object_values_def)
  with b show ?thesis by (auto simp: graph_nodes_def)
qed

lemma dfs_inv_closed:
  "dfs_inv g V S \<Longrightarrow> u \<in> V - S \<Longrightarrow> (u, v) \<in> dep_edges g \<Longrightarrow> v \<in> V - S"
  unfolding dfs_inv_def by blast

lemma dfs_inv_acyclic: "dfs_inv g V S \<Longrightarrow> u \<in> V - S \<Longrightarrow> (u, u) \<notin> (dep_edges g)\<^sup>+"
  unfolding dfs_inv_def by blast

lemma dfs_inv_subset: "dfs_inv g V S \<Longrightarrow> S \<subseteq> V"
  unfolding dfs_inv_def by blast

lemma dfs_invI:
  assumes "S \<subseteq> V"
    and "\<And>u v. u \<in> V - S \<Longrightarrow> (u, v) \<in> dep_edges g \<Longrightarrow> v \<in> V - S"
    and "\<And>u. u \<in> V - S \<Longrightarrow> (u, u) \<notin> (dep_edges g)\<^sup>+"
  shows "dfs_inv g V S"
  unfolding dfs_inv_def using assms by blast

lemma dfs_inv_finish:
  assumes inv: "dfs_inv g V (insert x S)" and xS: "x \<notin> S" and xV: "x \<in> V"
    and succ: "\<And>y. (x, y) \<in> dep_edges g \<Longrightarrow> y \<in> V - insert x S"
  shows "dfs_inv g V S"
proof (rule dfs_invI)
  show "S \<subseteq> V" using dfs_inv_subset[OF inv] by blast
next
  fix u v assume u: "u \<in> V - S" and uv: "(u, v) \<in> dep_edges g"
  have "v \<in> V - insert x S"
  proof (cases "u = x")
    case True
    then show ?thesis using succ uv by blast
  next
    case False
    then have "u \<in> V - insert x S" using u by blast
    then show ?thesis using uv by (rule dfs_inv_closed[OF inv])
  qed
  then show "v \<in> V - S" by blast
next
  fix u assume u: "u \<in> V - S"
  show "(u, u) \<notin> (dep_edges g)\<^sup>+"
  proof (cases "u = x")
    case False
    then have "u \<in> V - insert x S" using u by blast
    then show ?thesis by (rule dfs_inv_acyclic[OF inv])
  next
    case True
    show ?thesis
    proof
      assume "(u, u) \<in> (dep_edges g)\<^sup>+"
      then obtain y where xy: "(x, y) \<in> dep_edges g" and yx: "(y, x) \<in> (dep_edges g)\<^sup>*"
        unfolding True by (blast dest: tranclD)
      have "y \<in> V - insert x S" using succ[OF xy] .
      with yx have "x \<in> V - insert x S"
        by (rule closed_rtrancl) (rule dfs_inv_closed[OF inv])
      then show False by blast
    qed
  qed
qed

lemma dfs_inv_start:
  assumes "dfs_inv g V S" and "x \<notin> V"
  shows "dfs_inv g (insert x V) (insert x S)"
proof -
  have "x \<notin> S" using dfs_inv_subset[OF assms(1)] assms(2) by blast
  then have eq: "insert x V - insert x S = V - S" using assms(2) by blast
  show ?thesis
  proof (rule dfs_invI)
    show "insert x S \<subseteq> insert x V" using dfs_inv_subset[OF assms(1)] by blast
  next
    fix u v assume "u \<in> insert x V - insert x S" and "(u, v) \<in> dep_edges g"
    then show "v \<in> insert x V - insert x S"
      unfolding eq by (rule dfs_inv_closed[OF assms(1)])
  next
    fix u assume "u \<in> insert x V - insert x S"
    then show "(u, u) \<notin> (dep_edges g)\<^sup>+"
      unfolding eq by (rule dfs_inv_acyclic[OF assms(1)])
  qed
qed

lemma card_Diff_insert_less:
  assumes "finite U" "x \<in> U" "x \<notin> V" "card (U - V) \<le> Suc n"
  shows "card (U - insert x V) \<le> n"
proof -
  have "card (U - insert x V) < card (U - V)"
  proof (rule psubset_card_mono)
    show "finite (U - V)" using assms(1) by simp
    show "U - insert x V \<subset> U - V" using assms(2,3) by auto
  qed
  with assms(4) show ?thesis by simp
qed

lemma hasCycle_deps_correct:
  assumes P: "\<And>formId vis stk.
      dfs_inv g (set vis) (set stk) \<Longrightarrow> formId \<notin> set vis \<Longrightarrow> formId \<in> set (graph_nodes g)
      \<Longrightarrow> \<forall>s \<in> set stk. (s, formId) \<in> (dep_edges g)\<^sup>*
      \<Longrightarrow> card (set (graph_nodes g) - set vis) \<le> n
      \<Longrightarrow> dfs_post g (set vis) (set stk) {formId} (hasCycle n g formId (vis, stk))"
  shows "dfs_inv g (set vis) (set stk) \<Longrightarrow> cur \<in> set stk
      \<Longrightarrow> \<forall>d \<in> set ds. (cur, d) \<in> dep_edges g
      \<Longrightarrow> \<forall>s \<in> set stk. (s, cur) \<in> (dep_edges g)\<^sup>*
      \<Longrightarrow> card (set (graph_nodes g) - set vis) \<le> n
      \<Longrightarrow> dfs_post g (set vis) (set stk) (set ds) (hasCycle_deps n g ds (vis, stk))"
proof (induction ds arbitrary: vis stk)
  case Nil
  then show ?case by (simp add: dfs_post_def)
next
  case (Cons d rest)
  have edge: "(cur, d) \<in> dep_edges g" using Cons.prems(3) by simp
  have rest_edges: "\<forall>d \<in> set rest. (cur, d) \<in> dep_edges g" using Cons.prems(3) by simp
  have SV: "set stk \<subseteq> set vis" using Cons.prems(1) by (rule dfs_inv_subset)
  show ?case
  proof (cases "d \<in> set vis")
    case unvisited: False
    have dn: "d \<in> set (graph_nodes g)" using edge by (rule dep_edges_nodes)
    have path: "\<forall>s \<in> set stk. (s, d) \<in> (dep_edges g)\<^sup>*"
      using Cons.prems(4) edge by (auto intro: rtrancl_into_rtrancl)
    have post1: "dfs_post g (set vis) (set stk) {d} (hasCycle n g d (vis, stk))"
      using P[OF Cons.prems(1) unvisited dn path Cons.prems(5)] .
    then obtain res where r0: "hasCycle n g d (vis, stk) = Some res"
      by (auto simp: dfs_post_def split: option.splits)
    show ?thesis
    proof (cases res)
      case (Inl e)
      then show ?thesis using post1 r0 unvisited by (simp add: dfs_post_def)
    next
      case (Inr found)
      obtain b vis1 stk1 where found: "found = (b, vis1, stk1)" by (cases found)
      have r1: "hasCycle n g d (vis, stk) = Some (Inr (b, vis1, stk1))"
        using r0 Inr found by simp
      show ?thesis
      proof (cases b)
      case True
      then show ?thesis using post1 r1 unvisited by (simp add: dfs_post_def)
    next
      case False
      from post1 r1 False have sub1: "set vis \<subseteq> set vis1" and d1: "d \<in> set vis1"
        and s1: "set stk1 = set stk" and inv1: "dfs_inv g (set vis1) (set stk)"
        by (auto simp: dfs_post_def)
      have "card (set (graph_nodes g) - set vis1) \<le> card (set (graph_nodes g) - set vis)"
        using sub1 by (auto intro!: card_mono)
      then have c1: "card (set (graph_nodes g) - set vis1) \<le> n" using Cons.prems(5) by simp
      have post2: "dfs_post g (set vis1) (set stk1) (set rest) (hasCycle_deps n g rest (vis1, stk1))"
        using Cons.IH[of vis1 stk1] inv1 s1 Cons.prems(2) rest_edges Cons.prems(4) c1 by simp
      have dS: "d \<notin> set stk" using unvisited SV by auto
      have eq: "hasCycle_deps n g (d # rest) (vis, stk) = hasCycle_deps n g rest (vis1, stk1)"
        using unvisited r1 False by simp
      show ?thesis unfolding eq using post2 sub1 d1 dS s1
        by (auto simp: dfs_post_def split: option.splits sum.splits if_splits)
    qed
    qed
  next
    case visited: True
    show ?thesis
    proof (cases "d \<in> set stk")
      case True
      then have "(d, cur) \<in> (dep_edges g)\<^sup>*" using Cons.prems(4) by simp
      then have "(d, d) \<in> (dep_edges g)\<^sup>+" using edge by (rule rtrancl_into_trancl1)
      then have "cyclic g" by (auto simp: cyclic_def)
      then show ?thesis using visited True by (simp add: dfs_post_def)
    next
      case False
      have post2: "dfs_post g (set vis) (set stk) (set rest) (hasCycle_deps n g rest (vis, stk))"
        by (rule Cons.IH[OF Cons.prems(1,2) rest_edges Cons.prems(4,5)])
      have eq: "hasCycle_deps n g (d # rest) (vis, stk) = hasCycle_deps n g rest (vis, stk)"
        using visited False by simp
      show ?thesis unfolding eq using post2 visited False
        by (auto simp: dfs_post_def split: option.splits sum.splits if_splits)
    qed
  qed
qed

lemma hasCycle_correct:
  "dfs_inv g (set vis) (set stk) \<Longrightarrow> formId \<notin> set vis \<Longrightarrow> formId \<in> set (graph_nodes g)
      \<Longrightarrow> \<forall>s \<in> set stk. (s, formId) \<in> (dep_edges g)\<^sup>*
      \<Longrightarrow> card (set (graph_nodes g) - set vis) \<le> n
      \<Longrightarrow> dfs_post g (set vis) (set stk) {formId} (hasCycle n g formId (vis, stk))"
proof (induction n arbitrary: formId vis stk)
  case 0
  have "formId \<in> set (graph_nodes g) - set vis" using 0 by simp
  then have "card (set (graph_nodes g) - set vis) \<noteq> 0" by (auto simp: card_eq_0_iff)
  with 0 show ?case by simp
next
  case (Suc n)
  have SV: "set stk \<subseteq> set vis" using Suc.prems(1) by (rule dfs_inv_subset)
  have fS: "formId \<notin> set stk" using SV Suc.prems(2) by auto
  have inv1: "dfs_inv g (set (Set_add formId vis)) (set (Set_add formId stk))"
    using dfs_inv_start[OF Suc.prems(1,2)] by simp
  show ?case
  proof (cases "get_property g formId")
    case Undefined
    have nosucc: "\<And>y. (formId, y) \<in> dep_edges g \<Longrightarrow> y \<in> insert formId (set vis) - insert formId (set stk)"
      using Undefined by (simp add: dep_edges_def get_property_Undefined)
    have "dfs_inv g (insert formId (set vis)) (set stk)"
      using dfs_inv_finish[OF _ fS _ nosucc] inv1 by simp
    then show ?thesis using Undefined fS by (auto simp: dfs_post_def)
  next
    case Inherited
    have "\<not> no_inherited_names g" using no_inherited_namesD[OF _ Suc.prems(3)] Inherited by blast
    then show ?thesis using Inherited by (simp add: dfs_post_def)
  next
    case (OwnForm form)
    have Some: "map_of g formId = Some form" using OwnForm by (simp add: get_property_OwnForm)
    have c1: "card (set (graph_nodes g) - set (Set_add formId vis)) \<le> n"
      using card_Diff_insert_less[OF _ Suc.prems(3,2,5)] by simp
    have edges: "\<forall>d \<in> set (dependencies form). (formId, d) \<in> dep_edges g"
      using Some by (auto simp: dep_edges_def)
    have path: "\<forall>s \<in> set (Set_add formId stk). (s, formId) \<in> (dep_edges g)\<^sup>*"
      using Suc.prems(4) by simp
    have post1: "dfs_post g (set (Set_add formId vis)) (set (Set_add formId stk)) (set (dependencies form))
        (hasCycle_deps n g (dependencies form) (Set_add formId vis, Set_add formId stk))"
      by (rule hasCycle_deps_correct[OF Suc.IH inv1 _ edges path c1]) simp_all
    then obtain res where
      r0: "hasCycle_deps n g (dependencies form) (Set_add formId vis, Set_add formId stk) = Some res"
      by (auto simp: dfs_post_def split: option.splits)
    show ?thesis
    proof (cases res)
      case (Inl e)
      then show ?thesis using post1 r0 OwnForm by (simp add: dfs_post_def)
    next
      case (Inr found)
      obtain b vis1 stk1 where found: "found = (b, vis1, stk1)" by (cases found)
      have r1: "hasCycle_deps n g (dependencies form) (Set_add formId vis, Set_add formId stk)
          = Some (Inr (b, vis1, stk1))"
        using r0 Inr found by simp
      show ?thesis
      proof (cases b)
      case True
      then show ?thesis using post1 r1 OwnForm by (simp add: dfs_post_def)
    next
      case False
      from post1 r1 False have sub1: "insert formId (set vis) \<subseteq> set vis1"
        and d1: "set (dependencies form) \<subseteq> set vis1 - insert formId (set stk)"
        and s1: "set stk1 = insert formId (set stk)"
        and inv2: "dfs_inv g (set vis1) (insert formId (set stk))"
        by (auto simp: dfs_post_def)
      have succ: "\<And>y. (formId, y) \<in> dep_edges g \<Longrightarrow> y \<in> set vis1 - insert formId (set stk)"
        using Some d1 by (auto simp: dep_edges_def)
      have "dfs_inv g (set vis1) (set stk)"
        using dfs_inv_finish[OF inv2 fS _ succ] sub1 by auto
      then show ?thesis using r1 False OwnForm sub1 s1 fS by (auto simp: dfs_post_def)
    qed
    qed
  qed
qed


lemma keys_loop_correct:
  "dfs_inv g (set vis) {} \<Longrightarrow> set stk = {} \<Longrightarrow> set ks \<subseteq> set (graph_nodes g)
     \<Longrightarrow> card (set (graph_nodes g) - set vis) \<le> n
     \<Longrightarrow> keys_post g (set vis \<union> set ks) (keys_loop n g ks (vis, stk))"
proof (induction ks arbitrary: vis stk)
  case Nil
  have "\<forall>a \<in> set vis. (a, a) \<notin> (dep_edges g)\<^sup>+"
    using dfs_inv_acyclic[OF Nil.prems(1)] by simp
  then show ?case by (simp add: keys_post_def)
next
  case (Cons k rest)
  have rest_sub: "set rest \<subseteq> set (graph_nodes g)" using Cons.prems(3) by simp
  show ?case
  proof (cases "k \<in> set vis")
    case True
    have post: "keys_post g (set vis \<union> set rest) (keys_loop n g rest (vis, stk))"
      by (rule Cons.IH[OF Cons.prems(1,2) rest_sub Cons.prems(4)])
    have eq: "keys_loop n g (k # rest) (vis, stk) = keys_loop n g rest (vis, stk)"
      using True by simp
    have K: "set vis \<union> set (k # rest) = set vis \<union> set rest" using True by auto
    show ?thesis unfolding eq K using post .
  next
    case False
    have kn: "k \<in> set (graph_nodes g)" using Cons.prems(3) by simp
    have inv: "dfs_inv g (set vis) (set stk)" using Cons.prems(1,2) by simp
    have path: "\<forall>s \<in> set stk. (s, k) \<in> (dep_edges g)\<^sup>*" using Cons.prems(2) by simp
    have post1: "dfs_post g (set vis) (set stk) {k} (hasCycle n g k (vis, stk))"
      by (rule hasCycle_correct[OF inv False kn path Cons.prems(4)])
    then obtain res where r0: "hasCycle n g k (vis, stk) = Some res"
      by (auto simp: dfs_post_def split: option.splits)
    show ?thesis
    proof (cases res)
      case (Inl e)
      then show ?thesis using post1 r0 False by (simp add: dfs_post_def keys_post_def)
    next
      case (Inr found)
      obtain b1 vis1 stk1 where found: "found = (b1, vis1, stk1)" by (cases found)
      have r1: "hasCycle n g k (vis, stk) = Some (Inr (b1, vis1, stk1))"
        using r0 Inr found by simp
      show ?thesis
      proof (cases b1)
        case True
        then have cyc: "cyclic g" using post1 r1 by (simp add: dfs_post_def)
        have eq: "keys_loop n g (k # rest) (vis, stk) = Some (Inr True)"
          using False r1 True by simp
        show ?thesis unfolding eq using cyc by (simp add: keys_post_def)
      next
        case notfound: False
        from post1 r1 notfound have sub1: "set vis \<subseteq> set vis1" and k1: "k \<in> set vis1"
          and s1: "set stk1 = {}" and inv1: "dfs_inv g (set vis1) {}"
          using Cons.prems(2) by (auto simp: dfs_post_def)
        have "card (set (graph_nodes g) - set vis1) \<le> card (set (graph_nodes g) - set vis)"
          using sub1 by (auto intro!: card_mono)
        then have c1: "card (set (graph_nodes g) - set vis1) \<le> n" using Cons.prems(4) by simp
        have post: "keys_post g (set vis1 \<union> set rest) (keys_loop n g rest (vis1, stk1))"
          by (rule Cons.IH[OF inv1 s1 rest_sub c1])
        have eq: "keys_loop n g (k # rest) (vis, stk) = keys_loop n g rest (vis1, stk1)"
          using False r1 notfound by simp
        have K: "set vis \<union> set (k # rest) \<subseteq> set vis1 \<union> set rest" using sub1 k1 by auto
        show ?thesis unfolding eq using post K
          by (auto simp: keys_post_def split: option.splits sum.splits if_splits)
      qed
    qed
  qed
qed

lemma dfs_inv_empty: "dfs_inv g {} {}"
  by (rule dfs_invI) simp_all

lemma cycle_through_key:
  assumes "(a, a) \<in> (dep_edges g)\<^sup>+"
  shows "a \<in> set (Object_keys g)"
proof -
  from assms obtain y where "(a, y) \<in> dep_edges g" by (blast dest: tranclD)
  then obtain form where "map_of g a = Some form" by (auto simp: dep_edges_def)
  then have "(a, form) \<in> set g" by (rule map_of_SomeD)
  then have "a \<in> fst ` set g" by force
  then show ?thesis by (simp add: Object_keys_def)
qed

lemma hasCircularDependencies_ends:
  assumes "length (graph_nodes g) \<le> n"
  shows "\<exists>res. hasCircularDependencies n g = Some res
          \<and> (case res of Inl e \<Rightarrow> \<not> no_inherited_names g | Inr b \<Rightarrow> b = cyclic g)"
proof -
  have keys: "set (Object_keys g) \<subseteq> set (graph_nodes g)" by (simp add: graph_nodes_def)
  have "card (set (graph_nodes g)) \<le> length (graph_nodes g)" by (rule card_length)
  then have c: "card (set (graph_nodes g) - set []) \<le> n" using assms by simp
  have inv: "dfs_inv g (set []) {}" using dfs_inv_empty by simp
  have post: "keys_post g (set [] \<union> set (Object_keys g))
      (keys_loop n g (Object_keys g) ([], []))"
    by (rule keys_loop_correct[OF inv _ keys c]) simp
  then obtain res where res: "keys_loop n g (Object_keys g) ([], []) = Some res"
    by (auto simp: keys_post_def split: option.splits)
  have "case res of Inl e \<Rightarrow> \<not> no_inherited_names g | Inr b \<Rightarrow> b = cyclic g"
  proof (cases res)
    case (Inl e)
    then show ?thesis using post res by (simp add: keys_post_def)
  next
    case (Inr b)
    have "b = cyclic g"
    proof (cases b)
      case True
      then show ?thesis using post res Inr by (simp add: keys_post_def)
    next
      case False
      then have none: "\<forall>a \<in> set (Object_keys g). (a, a) \<notin> (dep_edges g)\<^sup>+"
        using post res Inr by (simp add: keys_post_def)
      have "\<not> cyclic g"
      proof
        assume "cyclic g"
        then obtain a where a: "(a, a) \<in> (dep_edges g)\<^sup>+" by (auto simp: cyclic_def)
        then have "a \<in> set (Object_keys g)" by (rule cycle_through_key)
        with none a show False by blast
      qed
      then show ?thesis using False by simp
    qed
    then show ?thesis using Inr by simp
  qed
  then show ?thesis using res by (simp add: hasCircularDependencies_def)
qed

text \<open>
  An edge into an identifier that is not a key of the graph lies on no cycle, since
  nothing leaves that identifier: the cycles of all the edges are the cycles among the
  forms present.
\<close>

lemma trancl_present_edges:
  assumes "(x, y) \<in> (dep_edges g)\<^sup>+" and "map_of g y \<noteq> None"
  shows "(x, y) \<in> (present_edges g)\<^sup>+"
  using assms
proof (induction rule: trancl_induct)
  case (base y)
  then have "(x, y) \<in> present_edges g" by (auto simp: dep_edges_def present_edges_def)
  then show ?case by (rule r_into_trancl)
next
  case (step y z)
  from step.hyps(2) have "map_of g y \<noteq> None" by (auto simp: dep_edges_def)
  then have xy: "(x, y) \<in> (present_edges g)\<^sup>+" by (rule step.IH)
  have "(y, z) \<in> present_edges g"
    using step.hyps(2) step.prems by (auto simp: dep_edges_def present_edges_def)
  with xy show ?case by (rule trancl_into_trancl)
qed

lemma cyclic_iff_has_dependency_cycle: "cyclic g = has_dependency_cycle g"
proof
  assume "cyclic g"
  then obtain a where a: "(a, a) \<in> (dep_edges g)\<^sup>+" by (auto simp: cyclic_def)
  then have "a \<in> set (Object_keys g)" by (rule cycle_through_key)
  then have "map_of g a \<noteq> None"
    by (simp add: Object_keys_def map_of_eq_None_iff)
  with a have "(a, a) \<in> (present_edges g)\<^sup>+" by (rule trancl_present_edges)
  then show "has_dependency_cycle g" by (auto simp: has_dependency_cycle_def)
next
  assume "has_dependency_cycle g"
  then obtain a where a: "(a, a) \<in> (present_edges g)\<^sup>+"
    by (auto simp: has_dependency_cycle_def)
  have "present_edges g \<subseteq> dep_edges g" by (auto simp: dep_edges_def present_edges_def)
  then have "(present_edges g)\<^sup>+ \<subseteq> (dep_edges g)\<^sup>+" by (rule trancl_mono_subset)
  with a show "cyclic g" by (auto simp: cyclic_def)
qed

lemma hasCircularDependencies_without_inherited_names:
  assumes "no_inherited_names g" and "length (graph_nodes g) \<le> depth"
  shows "hasCircularDependencies depth g = Some (Inr (has_dependency_cycle g))"
proof -
  obtain res where res: "hasCircularDependencies depth g = Some res"
    and post: "case res of Inl e \<Rightarrow> \<not> no_inherited_names g | Inr b \<Rightarrow> b = cyclic g"
    using hasCircularDependencies_ends[OF assms(2)] by blast
  show ?thesis
  proof (cases res)
    case (Inl e)
    then show ?thesis using post assms(1) by simp
  next
    case (Inr b)
    then show ?thesis using post res by (simp add: cyclic_iff_has_dependency_cycle)
  qed
qed

text \<open>
  C4. The claim is that \<open>hasCircularDependencies\<close> returns true exactly when the graph
  has a dependency cycle among the forms present in it, and that a dependency
  identifier that is not in the graph adds no cycle. On the graph whose one form A
  depends on toString and on A there is a cycle among the forms present, and the
  function throws a TypeError instead of returning true: toString is not in the graph,
  the lookup finds the member inherited from \<open>Object.prototype\<close>, and the loop over its
  \<open>dependencies\<close> fails. On the graph whose one form A depends on toString alone there is
  no cycle, and the function throws as well instead of returning false.
\<close>

theorem hasCircularDependencies_inherited_name_throws:
  "hasCircularDependencies 3 [(''A'', \<lparr>form_id = ''A'', form_name = ''Form A'', form_fields = [], dependencies = [''toString'', ''A'']\<rparr>)] = Some (Inl TypeError)
   \<and> has_dependency_cycle [(''A'', \<lparr>form_id = ''A'', form_name = ''Form A'', form_fields = [], dependencies = [''toString'', ''A'']\<rparr>)]
   \<and> hasCircularDependencies 3 [(''A'', \<lparr>form_id = ''A'', form_name = ''Form A'', form_fields = [], dependencies = [''toString'']\<rparr>)] = Some (Inl TypeError)
   \<and> \<not> has_dependency_cycle [(''A'', \<lparr>form_id = ''A'', form_name = ''Form A'', form_fields = [], dependencies = [''toString'']\<rparr>)]"
proof (intro conjI)
  show "hasCircularDependencies 3 [(''A'', \<lparr>form_id = ''A'', form_name = ''Form A'', form_fields = [], dependencies = [''toString'', ''A'']\<rparr>)] = Some (Inl TypeError)"
    by code_simp
  show "hasCircularDependencies 3 [(''A'', \<lparr>form_id = ''A'', form_name = ''Form A'', form_fields = [], dependencies = [''toString'']\<rparr>)] = Some (Inl TypeError)"
    by code_simp
  have "(''A'', ''A'') \<in> present_edges [(''A'', \<lparr>form_id = ''A'', form_name = ''Form A'', form_fields = [], dependencies = [''toString'', ''A'']\<rparr>)]"
    by (simp add: present_edges_def)
  then show "has_dependency_cycle [(''A'', \<lparr>form_id = ''A'', form_name = ''Form A'', form_fields = [], dependencies = [''toString'', ''A'']\<rparr>)]"
    unfolding has_dependency_cycle_def by (blast intro: r_into_trancl)
  have "present_edges [(''A'', \<lparr>form_id = ''A'', form_name = ''Form A'', form_fields = [], dependencies = [''toString'']\<rparr>)] = {}"
    by (auto simp: present_edges_def split: if_splits)
  then show "\<not> has_dependency_cycle [(''A'', \<lparr>form_id = ''A'', form_name = ''Form A'', form_fields = [], dependencies = [''toString'']\<rparr>)]"
    by (simp add: has_dependency_cycle_def)
qed

text \<open>
  C5. \<open>getDependencies\<close> ends for every target on every graph, cyclic or not: it returns
  a set or throws. \<open>hasCircularDependencies\<close> ends on every graph, by returning or by
  throwing, as soon as the call stack may be as deep as the graph has identifiers.
\<close>

theorem resolver_terminates:
  "(\<exists>res. getDependencies t g = Some res)
   \<and> (\<forall>depth. length (graph_nodes g) \<le> depth \<longrightarrow>
          (\<exists>res. hasCircularDependencies depth g = Some res))"
proof (intro conjI allI impI)
  show "\<exists>res. getDependencies t g = Some res" using getDependencies_ends by blast
next
  fix depth assume "length (graph_nodes g) \<le> depth"
  from hasCircularDependencies_ends[OF this]
  show "\<exists>res. hasCircularDependencies depth g = Some res" by blast
qed

theorem resolver_terminates_witness:
  "(\<exists>res. getDependencies ''A'' [(''A'', \<lparr>form_id = ''A'', form_name = ''Form A'', form_fields = [], dependencies = [''B'']\<rparr>),
      (''B'', \<lparr>form_id = ''B'', form_name = ''Form B'', form_fields = [], dependencies = [''C'']\<rparr>),
      (''C'', \<lparr>form_id = ''C'', form_name = ''Form C'', form_fields = [], dependencies = [''A'']\<rparr>)] = Some res)
   \<and> (\<exists>res. hasCircularDependencies 6 [(''A'', \<lparr>form_id = ''A'', form_name = ''Form A'', form_fields = [], dependencies = [''B'']\<rparr>),
      (''B'', \<lparr>form_id = ''B'', form_name = ''Form B'', form_fields = [], dependencies = [''C'']\<rparr>),
      (''C'', \<lparr>form_id = ''C'', form_name = ''Form C'', form_fields = [], dependencies = [''A'']\<rparr>)] = Some res)
   \<and> getDependencies ''A'' [(''A'', \<lparr>form_id = ''A'', form_name = ''Form A'', form_fields = [], dependencies = [''B'']\<rparr>),
      (''B'', \<lparr>form_id = ''B'', form_name = ''Form B'', form_fields = [], dependencies = [''C'']\<rparr>),
      (''C'', \<lparr>form_id = ''C'', form_name = ''Form C'', form_fields = [], dependencies = [''A'']\<rparr>)] = Some (Inr [''B'', ''C'', ''A''])
   \<and> hasCircularDependencies 6 [(''A'', \<lparr>form_id = ''A'', form_name = ''Form A'', form_fields = [], dependencies = [''B'']\<rparr>),
      (''B'', \<lparr>form_id = ''B'', form_name = ''Form B'', form_fields = [], dependencies = [''C'']\<rparr>),
      (''C'', \<lparr>form_id = ''C'', form_name = ''Form C'', form_fields = [], dependencies = [''A'']\<rparr>)] = Some (Inr True)"
proof -
  let ?g = "[(''A'', \<lparr>form_id = ''A'', form_name = ''Form A'', form_fields = [], dependencies = [''B'']\<rparr>),
      (''B'', \<lparr>form_id = ''B'', form_name = ''Form B'', form_fields = [], dependencies = [''C'']\<rparr>),
      (''C'', \<lparr>form_id = ''C'', form_name = ''Form C'', form_fields = [], dependencies = [''A'']\<rparr>)]"
  have l: "length (graph_nodes ?g) \<le> 6"
    by (simp add: graph_nodes_def Object_keys_def Object_values_def)
  have a: "getDependencies ''A'' ?g = Some (Inr [''B'', ''C'', ''A''])" by code_simp
  have b: "hasCircularDependencies 6 ?g = Some (Inr True)" by code_simp
  from resolver_terminates[of "''A''" ?g] l a b show ?thesis by blast
qed

section \<open>Claims about the data sources\<close>

lemma tokens_Nil: "tokens [] = [[]]"
  by (simp add: tokens_def)

lemma tokens_Cons:
  "tokens (c # cs) =
     (if c = CHR ''_'' then [] # tokens cs else (c # hd (tokens cs)) # tl (tokens cs))"
  by (simp add: tokens_def)

lemma tokens_not_Nil: "tokens s \<noteq> []"
  by (cases s) (simp_all add: tokens_Nil tokens_Cons)

lemma split_from_tokens:
  "split_from CHR ''_'' tok s = (tok @ hd (tokens s)) # tl (tokens s)"
proof (induction s arbitrary: tok)
  case Nil
  show ?case by (simp add: tokens_Nil)
next
  case (Cons c cs)
  show ?case
  proof (cases "c = CHR ''_''")
    case True
    then show ?thesis using Cons.IH[of "[]"] tokens_not_Nil[of cs] by (simp add: tokens_Cons)
  next
    case False
    then show ?thesis using Cons.IH[of "tok @ [c]"] by (simp add: tokens_Cons)
  qed
qed

lemma split_tokens: "split s CHR ''_'' = tokens s"
  using tokens_not_Nil[of s] by (simp add: split_def split_from_tokens)

lemma capitalize_word: "(\<lambda>word. toUpperCase (charAt word 0) @ slice word 1) = capitalize"
proof (rule ext)
  fix word show "toUpperCase (charAt word 0) @ slice word 1 = capitalize word"
    by (cases word) (simp_all add: toUpperCase_def charAt_def slice_def)
qed

lemma join_concat: "join (w # ws) sep = w @ concat (map (\<lambda>v. sep @ v) ws)"
  by (induction ws arbitrary: w) simp_all

lemma formatPropertyName_title_case: "formatPropertyName p = title_case p"
proof -
  obtain w ws where ts: "map capitalize (tokens p) = w # ws"
    using tokens_not_Nil[of p] by (cases "tokens p") auto
  show ?thesis
    unfolding formatPropertyName_def title_case_def split_tokens capitalize_word ts join_concat
    by simp

qed

text \<open>
  C7. A global-backed source lists one field per property name: its label is the Title
  Case rendering of the name, its type is the text tag, and its path is the prefix of
  the source, a dot and the label. The prefix is Action for the action properties and
  clientOrg for the organization properties. The name created_at gives the label
  Created At and, under the prefix Action, the path Action.Created At.
\<close>

theorem global_getFields_title_case:
  "getFields (GlobalDataSource gd) =
     map (\<lambda>prop. \<lparr>data_id = prop, data_label = title_case prop, data_type = Text,
                   data_path = ''Action'' @ ''.'' @ title_case prop\<rparr>)
       (actionProperties gd)
   \<and> getFields (OrganizationDataSource gd) =
     map (\<lambda>prop. \<lparr>data_id = prop, data_label = title_case prop, data_type = Text,
                   data_path = ''clientOrg'' @ ''.'' @ title_case prop\<rparr>)
       (clientOrgProperties gd)
   \<and> title_case ''created_at'' = ''Created At''
   \<and> getFields (GlobalDataSource
         \<lparr>actionProperties = [''created_at''], clientOrgProperties = []\<rparr>) =
       [\<lparr>data_id = ''created_at'', data_label = ''Created At'', data_type = Text,
         data_path = ''Action.Created At''\<rparr>]"
proof (intro conjI)
  show "title_case ''created_at'' = ''Created At''" by code_simp
  then show "getFields (GlobalDataSource
         \<lparr>actionProperties = [''created_at''], clientOrgProperties = []\<rparr>) =
       [\<lparr>data_id = ''created_at'', data_label = ''Created At'', data_type = Text,
         data_path = ''Action.Created At''\<rparr>]"
    by (simp add: formatPropertyName_title_case)
qed (simp_all add: formatPropertyName_title_case)

text \<open>
  C8. A form-backed source lists exactly one field per field of its form, in the order
  of the form, nothing dropped and nothing merged; each keeps the identifier, the label
  and the type of the form's field, and its path is the display name of the source, a
  dot and the label. A source named Form B over one field labelled Email lists one
  field with the path Form B.Email.
\<close>

theorem form_getFields_one_to_one:
  "length (getFields (FormDataSource i n form)) = length (form_fields form)
   \<and> (\<forall>k < length (form_fields form).
         data_id (getFields (FormDataSource i n form) ! k) = field_id (form_fields form ! k)
         \<and> data_label (getFields (FormDataSource i n form) ! k)
             = field_label (form_fields form ! k)
         \<and> data_type (getFields (FormDataSource i n form) ! k)
             = field_type (form_fields form ! k)
         \<and> data_path (getFields (FormDataSource i n form) ! k)
             = n @ ''.'' @ field_label (form_fields form ! k))
   \<and> getFields (FormDataSource ''form-b'' ''Form B''
         \<lparr>form_id = ''form-b'', form_name = ''Form B'',
          form_fields = [\<lparr>field_id = ''email'', field_label = ''Email'',
                          field_type = Email\<rparr>],
          dependencies = []\<rparr>) =
       [\<lparr>data_id = ''email'', data_label = ''Email'', data_type = Email,
         data_path = ''Form B.Email''\<rparr>]"
  by simp

theorem form_getFields_one_to_one_witness:
  "length (getFields (FormDataSource ''form-a'' ''Form A''
       \<lparr>form_id = ''form-a'', form_name = ''Form A'',
        form_fields = [\<lparr>field_id = ''email'', field_label = ''Email'', field_type = Email\<rparr>,
                       \<lparr>field_id = ''email'', field_label = ''Email'', field_type = Email\<rparr>,
                       \<lparr>field_id = ''name'', field_label = ''Name'', field_type = Text\<rparr>],
        dependencies = []\<rparr>)) = 3
   \<and> data_path (getFields (FormDataSource ''form-a'' ''Form A''
       \<lparr>form_id = ''form-a'', form_name = ''Form A'',
        form_fields = [\<lparr>field_id = ''email'', field_label = ''Email'', field_type = Email\<rparr>,
                       \<lparr>field_id = ''email'', field_label = ''Email'', field_type = Email\<rparr>,
                       \<lparr>field_id = ''name'', field_label = ''Name'', field_type = Text\<rparr>],
        dependencies = []\<rparr>) ! 2) = ''Form A.Name''"
  using form_getFields_one_to_one[of "''form-a''" "''Form A''"
      "\<lparr>form_id = ''form-a'', form_name = ''Form A'',
        form_fields = [\<lparr>field_id = ''email'', field_label = ''Email'', field_type = Email\<rparr>,
                       \<lparr>field_id = ''email'', field_label = ''Email'', field_type = Email\<rparr>,
                       \<lparr>field_id = ''name'', field_label = ''Name'', field_type = Text\<rparr>],
        dependencies = []\<rparr>"]
  by simp

section \<open>Claims about the categorizer\<close>

lemma map_of_register: "map_of (register s r) = (map_of r)(DataSource_id s \<mapsto> s)"
  by (simp add: register_def update_conv')

lemma set_register:
  "(k, s) \<in> set (register src r) \<Longrightarrow> (k = DataSource_id src \<and> s = src) \<or> (k, s) \<in> set r"
  unfolding register_def by (induction r) (auto split: if_splits)

lemma registry_ok_register: "registry_ok r \<Longrightarrow> registry_ok (register src r)"
  unfolding registry_ok_def using set_register by blast

lemma foldl_register_forms_ok:
  "registry_ok r \<Longrightarrow>
   registry_ok (foldl (\<lambda>r form. register (FormDataSource (form_id form) (form_name form) form) r) r fs)"
  by (induction fs arbitrary: r) (simp_all add: registry_ok_register)

lemma registerForms_ok: "registry_ok r \<Longrightarrow> registry_ok (registerForms g r)"
  unfolding registerForms_def by (rule foldl_register_forms_ok)

lemma registerGlobals_ok: "registry_ok r \<Longrightarrow> registry_ok (registerGlobals s r)"
  by (cases s) (simp_all add: registerGlobals_def registry_ok_register)

lemma registry_okD: "registry_ok r \<Longrightarrow> get r k = Some s \<Longrightarrow> DataSource_id s = k"
  unfolding registry_ok_def get_def by (auto dest: map_of_SomeD)

lemma foldl_register_forms_miss:
  "\<forall>f \<in> set fs. form_id f \<noteq> k \<Longrightarrow>
   map_of (foldl (\<lambda>r form. register (FormDataSource (form_id form) (form_name form) form) r) r fs) k
     = map_of r k"
  by (induction fs arbitrary: r) (auto simp: map_of_register)

lemma foldl_register_forms_hit:
  "(f \<in> set fs \<and> form_id f = k) \<or> (\<exists>s. map_of r k = Some s \<and> DataSource_type s = FormT) \<Longrightarrow>
   \<exists>s. map_of (foldl (\<lambda>r form. register (FormDataSource (form_id form) (form_name form) form) r) r fs) k
      = Some s \<and> DataSource_type s = FormT"
proof (induction fs arbitrary: r)
  case Nil
  then show ?case by simp
next
  case (Cons a fs)
  let ?r = "register (FormDataSource (form_id a) (form_name a) a) r"
  have "(f \<in> set fs \<and> form_id f = k) \<or> (\<exists>s. map_of ?r k = Some s \<and> DataSource_type s = FormT)"
    using Cons.prems by (auto simp: map_of_register)
  from Cons.IH[OF this] show ?case by simp
qed

lemma foldl_register_forms_types:
  "\<forall>(k, s) \<in> set r. DataSource_type s = FormT \<Longrightarrow>
   \<forall>(k, s) \<in> set (foldl (\<lambda>r form. register (FormDataSource (form_id form) (form_name form) form) r) r fs).
      DataSource_type s = FormT"
proof (induction fs arbitrary: r)
  case Nil
  then show ?case by simp
next
  case (Cons a fs)
  let ?r = "register (FormDataSource (form_id a) (form_name a) a) r"
  have "\<forall>(k, s) \<in> set ?r. DataSource_type s = FormT"
    using Cons.prems set_register[of _ _ "FormDataSource (form_id a) (form_name a) a" r] by fastforce
  from Cons.IH[OF this] show ?case by simp
qed

lemma set_map_filter: "set (List.map_filter f xs) = {y. \<exists>x \<in> set xs. f x = Some y}"
  by (induction xs) (auto split: option.splits)

lemma filter_update_new:
  assumes "P v" and "\<forall>(k', s) \<in> set r. k' = k \<longrightarrow> \<not> P s"
  shows "set (filter P (map snd (AList.update k v r))) = insert v (set (filter P (map snd r)))
       \<and> length (filter P (map snd (AList.update k v r)))
           = Suc (length (filter P (map snd r)))"
  using assms by (induction r) auto

lemma getByType_forms_only:
  assumes "\<forall>(k, s) \<in> set F. DataSource_type s = FormT"
  shows "getByType F GlobalT = []"
proof -
  have "\<forall>x \<in> set (map snd F). DataSource_type x \<noteq> GlobalT" using assms by fastforce
  then show ?thesis unfolding getByType_def getAll_def by (simp add: filter_empty_conv)
qed

lemma getByType_registerGlobals:
  assumes F: "\<forall>(k, s) \<in> set F. DataSource_type s = FormT"
  shows "set (getByType (registerGlobals (Some gd) F) GlobalT)
           = {GlobalDataSource gd, OrganizationDataSource gd}
       \<and> length (getByType (registerGlobals (Some gd) F) GlobalT) = 2"
proof -
  let ?P = "\<lambda>source. DataSource_type source = GlobalT"
  let ?r1 = "register (GlobalDataSource gd) F"
  have none: "filter ?P (map snd F) = []"
    using getByType_forms_only[OF F] by (simp add: getByType_def getAll_def)
  have "\<forall>(k', s) \<in> set F. k' = ''global-action-properties'' \<longrightarrow> \<not> ?P s"
    using F by fastforce
  from filter_update_new[of ?P "GlobalDataSource gd" F "''global-action-properties''", OF _ this]
  have one: "set (filter ?P (map snd ?r1)) = {GlobalDataSource gd}"
    "length (filter ?P (map snd ?r1)) = 1"
    by (simp_all add: register_def none)
  have "\<forall>(k', s) \<in> set ?r1. k' = ''global-org-properties'' \<longrightarrow> \<not> ?P s"
  proof (clarify)
    fix s assume mem: "(''global-org-properties'', s) \<in> set ?r1" and g: "DataSource_type s = GlobalT"
    from set_register[OF mem] have "(''global-org-properties'', s) \<in> set F" by simp
    with F have "DataSource_type s = FormT" by fastforce
    with g show False by simp
  qed
  from filter_update_new[of ?P "OrganizationDataSource gd" ?r1 "''global-org-properties''", OF _ this]
  have "set (filter ?P (map snd (register (OrganizationDataSource gd) ?r1)))
          = {GlobalDataSource gd, OrganizationDataSource gd}
      \<and> length (filter ?P (map snd (register (OrganizationDataSource gd) ?r1))) = 2"
    using one by (auto simp: register_def)
  then show ?thesis by (simp add: getByType_def getAll_def registerGlobals_def)
qed

lemma registerForms_types:
  "\<forall>(k, s) \<in> set (registerForms g []). DataSource_type s = FormT"
  unfolding registerForms_def by (rule foldl_register_forms_types) simp

lemma get_registerForms_miss:
  "\<forall>f \<in> set (Object_values g). form_id f \<noteq> k \<Longrightarrow> get (registerForms g []) k = None"
  unfolding registerForms_def get_def by (simp add: foldl_register_forms_miss)

lemma get_registerForms_hit:
  "f \<in> set (Object_values g) \<Longrightarrow>
   \<exists>s. get (registerForms g []) (form_id f) = Some s \<and> DataSource_type s = FormT"
  unfolding registerForms_def get_def by (rule foldl_register_forms_hit) blast

lemma get_registerGlobals:
  "get (registerGlobals (Some gd) r) k =
     (if k = ''global-org-properties'' then Some (OrganizationDataSource gd)
      else if k = ''global-action-properties'' then Some (GlobalDataSource gd)
      else get r k)"
  by (simp add: registerGlobals_def get_def map_of_register)

lemma built_registry_ok: "registry_ok (registerGlobals s (registerForms g []))"
  by (rule registerGlobals_ok, rule registerForms_ok) (simp add: registry_ok_def)

lemma getTransitiveDependencies_ends:
  "\<exists>res. getTransitiveDependencies t g = Some res
     \<and> (get_property g t = Undefined \<longrightarrow> res = Inr [])
     \<and> (get_property g t \<noteq> Inherited \<and> no_inherited_names g \<longrightarrow> (\<exists>tr. res = Inr tr))"
proof (cases "get_property g t = Undefined")
  case True
  then show ?thesis
    by (simp add: getTransitiveDependencies_def getDependencies_def getDirectDependencies_def
        bfs_loop_Cons bfs_loop_Nil)
next
  case False
  obtain res where res: "getDependencies t g = Some res"
    and post: "case res of
          Inl e \<Rightarrow> get_property g t = Inherited \<or> \<not> no_inherited_names g
        | Inr r \<Rightarrow> set (getDirectDependencies t g) \<subseteq> set r"
    using getDependencies_ends by blast
  show ?thesis
  proof (cases res)
    case (Inl e)
    then show ?thesis using res post False by (auto simp: getTransitiveDependencies_def)
  next
    case (Inr r)
    then show ?thesis using res False by (simp add: getTransitiveDependencies_def)
  qed
qed

lemma useDataSources_falsy:
  "useDataSources None g s =
     Some (Inr \<lparr>directDependencies = [], transitiveDependencies = [], globalSources = []\<rparr>)"
  "useDataSources (Some []) g s =
     Some (Inr \<lparr>directDependencies = [], transitiveDependencies = [], globalSources = []\<rparr>)"
  by (simp_all add: useDataSources_def)

lemma useDataSources_selected:
  assumes "t \<noteq> []" and "getTransitiveDependencies t g = Some (Inr tr)"
  shows "useDataSources (Some t) g s =
     Some (Inr \<lparr>directDependencies =
                  List.map_filter (get (registerGlobals s (registerForms g [])))
                    (getDirectDependencies t g),
                transitiveDependencies =
                  List.map_filter (get (registerGlobals s (registerForms g []))) tr,
                globalSources = getByType (registerGlobals s (registerForms g [])) GlobalT\<rparr>)"
  using assms by (simp add: useDataSources_def Let_def)

lemma useDataSources_throws:
  assumes "t \<noteq> []" and "getTransitiveDependencies t g = Some (Inl e)"
  shows "useDataSources (Some t) g s = Some (Inl e)"
  using assms by (simp add: useDataSources_def Let_def)

text \<open>
  C2. The claim is that a target that is null or absent from the graph gives three empty
  lists whatever the graph and the snapshot are. What holds: a null target gives three
  empty lists; a target for which the lookup in the graph gives \<open>undefined\<close> gives an
  empty direct and an empty transitive list, and its global list is empty when the
  target is the empty string or no snapshot is supplied, and otherwise holds exactly
  the two global sources.
\<close>

theorem useDataSources_null_or_absent_target:
  "useDataSources None g s =
     Some (Inr \<lparr>directDependencies = [], transitiveDependencies = [], globalSources = []\<rparr>)
   \<and> (get_property g t = Undefined \<longrightarrow>
        (\<exists>r. useDataSources (Some t) g s = Some (Inr r)
           \<and> directDependencies r = [] \<and> transitiveDependencies r = []
           \<and> (case s of
                 None \<Rightarrow> globalSources r = []
               | Some gd \<Rightarrow>
                   if t = [] then globalSources r = []
                   else set (globalSources r) = {GlobalDataSource gd, OrganizationDataSource gd}
                        \<and> length (globalSources r) = 2)))"
proof (intro conjI impI)
  show "useDataSources None g s =
     Some (Inr \<lparr>directDependencies = [], transitiveDependencies = [], globalSources = []\<rparr>)"
    by (rule useDataSources_falsy)
next
  assume absent: "get_property g t = Undefined"
  show "\<exists>r. useDataSources (Some t) g s = Some (Inr r)
           \<and> directDependencies r = [] \<and> transitiveDependencies r = []
           \<and> (case s of
                 None \<Rightarrow> globalSources r = []
               | Some gd \<Rightarrow>
                   if t = [] then globalSources r = []
                   else set (globalSources r) = {GlobalDataSource gd, OrganizationDataSource gd}
                        \<and> length (globalSources r) = 2)"
  proof (cases "t = []")
    case True
    then show ?thesis by (simp add: useDataSources_falsy split: option.splits)
  next
    case False
    have tr: "getTransitiveDependencies t g = Some (Inr [])"
      using getTransitiveDependencies_ends[of t g] absent by auto
    have d: "getDirectDependencies t g = []" using absent by (simp add: getDirectDependencies_def)
    show ?thesis
    proof (cases s)
      case None
      have "getByType (registerForms g []) GlobalT = []"
        by (rule getByType_forms_only[OF registerForms_types])
      then show ?thesis
        unfolding useDataSources_selected[OF False tr] d using None False
        by (simp add: registerGlobals_def)
    next
      case (Some gd)
      show ?thesis
        unfolding useDataSources_selected[OF False tr] d Some
        using getByType_registerGlobals[OF registerForms_types, of gd g] False by simp
    qed
  qed
qed

theorem useDataSources_null_or_absent_target_witness:
  "\<exists>r. useDataSources (Some ''form-x'') [(''form-a'', \<lparr>form_id = ''form-a'', form_name = ''Form A'', form_fields = [], dependencies = []\<rparr>)]
         (Some \<lparr>actionProperties = [''status'', ''created_at''], clientOrgProperties = [''org_name'']\<rparr>) = Some (Inr r)
     \<and> directDependencies r = [] \<and> transitiveDependencies r = []
     \<and> set (globalSources r) =
         {GlobalDataSource \<lparr>actionProperties = [''status'', ''created_at''], clientOrgProperties = [''org_name'']\<rparr>,
          OrganizationDataSource \<lparr>actionProperties = [''status'', ''created_at''], clientOrgProperties = [''org_name'']\<rparr>}
     \<and> length (globalSources r) = 2"
proof -
  have u: "get_property [(''form-a'', \<lparr>form_id = ''form-a'', form_name = ''Form A'', form_fields = [], dependencies = []\<rparr>)] ''form-x'' = Undefined"
    by code_simp
  show ?thesis
    using useDataSources_null_or_absent_target[of "[(''form-a'', \<lparr>form_id = ''form-a'', form_name = ''Form A'', form_fields = [], dependencies = []\<rparr>)]"
      "Some \<lparr>actionProperties = [''status'', ''created_at''], clientOrgProperties = [''org_name'']\<rparr>" "''form-x''"] u
    by simp
qed

theorem useDataSources_absent_target_counterexample:
  "map_of [(''form-a'', \<lparr>form_id = ''form-a'', form_name = ''Form A'', form_fields = [], dependencies = []\<rparr>)] ''form-x'' = None
   \<and> get_property [(''form-a'', \<lparr>form_id = ''form-a'', form_name = ''Form A'', form_fields = [], dependencies = []\<rparr>)] ''form-x'' = Undefined
   \<and> useDataSources (Some ''form-x'') [(''form-a'', \<lparr>form_id = ''form-a'', form_name = ''Form A'', form_fields = [], dependencies = []\<rparr>)]
       (Some \<lparr>actionProperties = [''status'', ''created_at''], clientOrgProperties = [''org_name'']\<rparr>)
     = Some (Inr \<lparr>directDependencies = [], transitiveDependencies = [],
             globalSources =
               [GlobalDataSource \<lparr>actionProperties = [''status'', ''created_at''], clientOrgProperties = [''org_name'']\<rparr>,
                OrganizationDataSource \<lparr>actionProperties = [''status'', ''created_at''], clientOrgProperties = [''org_name'']\<rparr>]\<rparr>)
   \<and> useDataSources (Some ''form-x'') [(''form-a'', \<lparr>form_id = ''form-a'', form_name = ''Form A'', form_fields = [], dependencies = []\<rparr>)]
       (Some \<lparr>actionProperties = [''status'', ''created_at''], clientOrgProperties = [''org_name'']\<rparr>)
     \<noteq> Some (Inr \<lparr>directDependencies = [], transitiveDependencies = [], globalSources = []\<rparr>)"
  by code_simp

text \<open>
  C10. The empty string as target gives three empty lists on every graph and snapshot,
  as a null target does, also when the graph has a form under the empty identifier.
\<close>

theorem useDataSources_empty_string_target:
  "useDataSources (Some []) g s = Some (Inr \<lparr>directDependencies = [], transitiveDependencies = [], globalSources = []\<rparr>)"
  by (rule useDataSources_falsy)

theorem useDataSources_empty_string_target_witness:
  "useDataSources (Some [])
     [([], \<lparr>form_id = [], form_name = ''Unnamed'', form_fields = [], dependencies = [''form-a'']\<rparr>), (''form-a'', \<lparr>form_id = ''form-a'', form_name = ''Form A'', form_fields = [], dependencies = []\<rparr>)]
     (Some \<lparr>actionProperties = [''status'', ''created_at''], clientOrgProperties = [''org_name'']\<rparr>)
   = Some (Inr \<lparr>directDependencies = [], transitiveDependencies = [], globalSources = []\<rparr>)"
  using useDataSources_empty_string_target[of
      "[([], \<lparr>form_id = [], form_name = ''Unnamed'', form_fields = [], dependencies = [''form-a'']\<rparr>), (''form-a'', \<lparr>form_id = ''form-a'', form_name = ''Form A'', form_fields = [], dependencies = []\<rparr>)]"
      "Some \<lparr>actionProperties = [''status'', ''created_at''], clientOrgProperties = [''org_name'']\<rparr>"]
  by simp

text \<open>
  C6. The claim is that a dependency identifier the target declares, with no form
  record of that identifier in the graph, is in the direct set of the resolver but
  not in the direct list of the categorizer. What holds: the identifier is in the
  direct set; and when no snapshot is supplied or the identifier is neither of the two
  identifiers of the global sources, every result the categorizer returns has no
  source of that identifier in its direct list. With a snapshot, the registry finds the
  global source under such an identifier. The categorizer returns a result whenever no
  identifier of the graph is looked up in \<open>Object.prototype\<close>.
\<close>

theorem ghost_dependency_dropped:
  assumes "get_property g t = OwnForm form" and "ghost \<in> set (dependencies form)"
    and "\<forall>f \<in> set (Object_values g). form_id f \<noteq> ghost"
    and "s = None \<or> (ghost \<noteq> ''global-action-properties'' \<and> ghost \<noteq> ''global-org-properties'')"
  shows "ghost \<in> set (getDirectDependencies t g)
       \<and> (\<exists>res. useDataSources (Some t) g s = Some res
              \<and> (\<forall>r. res = Inr r \<longrightarrow> ghost \<notin> DataSource_id ` set (directDependencies r))
              \<and> (no_inherited_names g \<longrightarrow> (\<exists>r. res = Inr r)))"
proof
  show "ghost \<in> set (getDirectDependencies t g)"
    using assms(1,2) by (simp add: getDirectDependencies_def)
next
  let ?R = "registerGlobals s (registerForms g [])"
  have miss0: "get (registerForms g []) ghost = None"
    using assms(3) by (rule get_registerForms_miss)
  have miss: "get ?R ghost = None"
  proof (cases s)
    case None
    then show ?thesis using miss0 by (simp add: registerGlobals_def)
  next
    case (Some gd)
    then show ?thesis using miss0 assms(4) by (simp add: get_registerGlobals)
  qed
  have nobucket: "ghost \<notin> DataSource_id ` set (List.map_filter (get ?R) ds)" for ds
  proof
    assume "ghost \<in> DataSource_id ` set (List.map_filter (get ?R) ds)"
    then obtain x d where "get ?R d = Some x" and "DataSource_id x = ghost"
      by (auto simp: set_map_filter)
    moreover from this(1) have "DataSource_id x = d"
      by (rule registry_okD[OF built_registry_ok])
    ultimately show False using miss by simp
  qed
  show "\<exists>res. useDataSources (Some t) g s = Some res
          \<and> (\<forall>r. res = Inr r \<longrightarrow> ghost \<notin> DataSource_id ` set (directDependencies r))
          \<and> (no_inherited_names g \<longrightarrow> (\<exists>r. res = Inr r))"
  proof (cases "t = []")
    case True
    then show ?thesis by (simp add: useDataSources_falsy)
  next
    case False
    have own: "get_property g t \<noteq> Inherited" using assms(1) by simp
    obtain res where res: "getTransitiveDependencies t g = Some res"
      and ok: "get_property g t \<noteq> Inherited \<and> no_inherited_names g \<longrightarrow> (\<exists>tr. res = Inr tr)"
      using getTransitiveDependencies_ends by blast
    show ?thesis
    proof (cases res)
      case (Inl e)
      have "useDataSources (Some t) g s = Some (Inl e)"
        using res Inl by (simp add: useDataSources_throws[OF False])
      then show ?thesis using ok own Inl by auto
    next
      case (Inr tr)
      have tr: "getTransitiveDependencies t g = Some (Inr tr)" using res Inr by simp
      show ?thesis unfolding useDataSources_selected[OF False tr] using nobucket by simp
    qed
  qed
qed

theorem ghost_dependency_dropped_witness:
  "''ghost'' \<in> set (getDirectDependencies ''form-t''
       [(''form-t'', \<lparr>form_id = ''form-t'', form_name = ''Form T'', form_fields = [], dependencies = [''ghost'', ''form-a'']\<rparr>), (''form-a'', \<lparr>form_id = ''form-a'', form_name = ''Form A'', form_fields = [], dependencies = []\<rparr>)])
   \<and> (\<exists>r. useDataSources (Some ''form-t'')
            [(''form-t'', \<lparr>form_id = ''form-t'', form_name = ''Form T'', form_fields = [], dependencies = [''ghost'', ''form-a'']\<rparr>), (''form-a'', \<lparr>form_id = ''form-a'', form_name = ''Form A'', form_fields = [], dependencies = []\<rparr>)]
            (Some \<lparr>actionProperties = [''status'', ''created_at''], clientOrgProperties = [''org_name'']\<rparr>) = Some (Inr r)
          \<and> ''ghost'' \<notin> DataSource_id ` set (directDependencies r))"
proof -
  let ?g = "[(''form-t'', \<lparr>form_id = ''form-t'', form_name = ''Form T'', form_fields = [], dependencies = [''ghost'', ''form-a'']\<rparr>), (''form-a'', \<lparr>form_id = ''form-a'', form_name = ''Form A'', form_fields = [], dependencies = []\<rparr>)]"
  have 1: "get_property ?g ''form-t'' = OwnForm \<lparr>form_id = ''form-t'', form_name = ''Form T'', form_fields = [], dependencies = [''ghost'', ''form-a'']\<rparr>"
    by (simp add: get_property_def)
  have 2: "''ghost'' \<in> set (dependencies \<lparr>form_id = ''form-t'', form_name = ''Form T'', form_fields = [], dependencies = [''ghost'', ''form-a'']\<rparr>)"
    by simp
  have 3: "\<forall>f \<in> set (Object_values ?g). form_id f \<noteq> ''ghost''"
    by (simp add: Object_values_def)
  have 4: "Some \<lparr>actionProperties = [''status'', ''created_at''], clientOrgProperties = [''org_name'']\<rparr> = None
      \<or> (''ghost'' \<noteq> ''global-action-properties'' \<and> ''ghost'' \<noteq> ''global-org-properties'')"
    by simp
  have 5: "no_inherited_names ?g" by code_simp
  show ?thesis using ghost_dependency_dropped[OF 1 2 3 4] 5 by blast
qed

theorem ghost_dependency_counterexample:
  "''global-action-properties'' \<in> set (getDirectDependencies ''form-t''
       [(''form-t'', \<lparr>form_id = ''form-t'', form_name = ''Form T'', form_fields = [], dependencies = [''global-action-properties'']\<rparr>)])
   \<and> get_property [(''form-t'', \<lparr>form_id = ''form-t'', form_name = ''Form T'', form_fields = [], dependencies = [''global-action-properties'']\<rparr>)] ''global-action-properties'' = Undefined
   \<and> form_id \<lparr>form_id = ''form-t'', form_name = ''Form T'', form_fields = [], dependencies = [''global-action-properties'']\<rparr> \<noteq> ''global-action-properties''
   \<and> useDataSources (Some ''form-t'') [(''form-t'', \<lparr>form_id = ''form-t'', form_name = ''Form T'', form_fields = [], dependencies = [''global-action-properties'']\<rparr>)]
       (Some \<lparr>actionProperties = [''status'', ''created_at''], clientOrgProperties = [''org_name'']\<rparr>)
     = Some (Inr \<lparr>directDependencies =
               [GlobalDataSource \<lparr>actionProperties = [''status'', ''created_at''], clientOrgProperties = [''org_name'']\<rparr>],
             transitiveDependencies = [],
             globalSources =
               [GlobalDataSource \<lparr>actionProperties = [''status'', ''created_at''], clientOrgProperties = [''org_name'']\<rparr>,
                OrganizationDataSource \<lparr>actionProperties = [''status'', ''created_at''], clientOrgProperties = [''org_name'']\<rparr>]\<rparr>)
   \<and> DataSource_id (GlobalDataSource \<lparr>actionProperties = [''status'', ''created_at''], clientOrgProperties = [''org_name'']\<rparr>)
       = ''global-action-properties''"
  by code_simp

text \<open>
  C9. The claim is that a form of the graph with one of the two identifiers of the
  global sources, together with a snapshot, puts the global source in place of the
  form-backed one in the direct (or transitive) list whenever that identifier is a
  direct (or transitive) dependency of the target. What holds: the registry first holds
  the form-backed source under that identifier and then the global-backed one in its
  place; and when the target is not the empty string, every result the categorizer
  returns has the global source in its global list, and, when the identifier is a
  direct (or transitive) dependency of the target, in its direct (or transitive) list,
  where it is the only source of that identifier. With the empty string as target the
  three lists are empty. The categorizer returns a result whenever neither the target
  nor an identifier of the graph is looked up in \<open>Object.prototype\<close>.
\<close>

theorem global_id_collision:
  assumes "t \<noteq> []" and "form \<in> set (Object_values g)" and "form_id form = gid"
    and "gid = ''global-action-properties'' \<or> gid = ''global-org-properties''"
  shows "\<exists>fs gs res.
      get (registerForms g []) gid = Some fs \<and> DataSource_type fs = FormT
      \<and> get (registerGlobals (Some gd) (registerForms g [])) gid = Some gs
      \<and> DataSource_type gs = GlobalT \<and> DataSource_id gs = gid
      \<and> useDataSources (Some t) g (Some gd) = Some res
      \<and> (\<forall>r. res = Inr r \<longrightarrow>
            gs \<in> set (globalSources r)
            \<and> (gid \<in> set (getDirectDependencies t g) \<longrightarrow>
                  gs \<in> set (directDependencies r)
                  \<and> (\<forall>x \<in> set (directDependencies r). DataSource_id x = gid \<longrightarrow> x = gs))
            \<and> (\<forall>tr. getTransitiveDependencies t g = Some (Inr tr) \<and> gid \<in> set tr \<longrightarrow>
                  gs \<in> set (transitiveDependencies r)
                  \<and> (\<forall>x \<in> set (transitiveDependencies r). DataSource_id x = gid \<longrightarrow> x = gs)))
      \<and> (get_property g t \<noteq> Inherited \<and> no_inherited_names g \<longrightarrow> (\<exists>r. res = Inr r))"
proof -
  let ?R = "registerGlobals (Some gd) (registerForms g [])"
  obtain res0 where res0: "getTransitiveDependencies t g = Some res0"
    and ok: "get_property g t \<noteq> Inherited \<and> no_inherited_names g \<longrightarrow> (\<exists>tr. res0 = Inr tr)"
    using getTransitiveDependencies_ends by blast
  obtain fs where fs: "get (registerForms g []) gid = Some fs" "DataSource_type fs = FormT"
    using get_registerForms_hit[OF assms(2)] assms(3) by blast
  define gs where
    "gs = (if gid = ''global-org-properties'' then OrganizationDataSource gd
           else GlobalDataSource gd)"
  have gs: "get ?R gid = Some gs" using assms(4) by (auto simp: gs_def get_registerGlobals)
  have ty: "DataSource_type gs = GlobalT" by (simp add: gs_def)
  have gsid: "DataSource_id gs = gid" using gs by (rule registry_okD[OF built_registry_ok])
  have "(gid, gs) \<in> set ?R" using gs unfolding get_def by (rule map_of_SomeD)
  then have "gs \<in> set (getAll ?R)" unfolding getAll_def by force
  then have glob: "gs \<in> set (getByType ?R GlobalT)" using ty by (simp add: getByType_def)
  have bucket: "gs \<in> set (List.map_filter (get ?R) ds)
      \<and> (\<forall>x \<in> set (List.map_filter (get ?R) ds). DataSource_id x = gid \<longrightarrow> x = gs)"
    if "gid \<in> set ds" for ds
  proof
    show "gs \<in> set (List.map_filter (get ?R) ds)" using that gs by (auto simp: set_map_filter)
    show "\<forall>x \<in> set (List.map_filter (get ?R) ds). DataSource_id x = gid \<longrightarrow> x = gs"
    proof (intro ballI impI)
      fix x assume "x \<in> set (List.map_filter (get ?R) ds)" and xid: "DataSource_id x = gid"
      then obtain d where d: "get ?R d = Some x" by (auto simp: set_map_filter)
      then have "DataSource_id x = d" by (rule registry_okD[OF built_registry_ok])
      with xid d gs show "x = gs" by simp
    qed
  qed
  have "\<exists>res. useDataSources (Some t) g (Some gd) = Some res
      \<and> (\<forall>r. res = Inr r \<longrightarrow>
            gs \<in> set (globalSources r)
            \<and> (gid \<in> set (getDirectDependencies t g) \<longrightarrow>
                  gs \<in> set (directDependencies r)
                  \<and> (\<forall>x \<in> set (directDependencies r). DataSource_id x = gid \<longrightarrow> x = gs))
            \<and> (\<forall>tr. getTransitiveDependencies t g = Some (Inr tr) \<and> gid \<in> set tr \<longrightarrow>
                  gs \<in> set (transitiveDependencies r)
                  \<and> (\<forall>x \<in> set (transitiveDependencies r). DataSource_id x = gid \<longrightarrow> x = gs)))
      \<and> (get_property g t \<noteq> Inherited \<and> no_inherited_names g \<longrightarrow> (\<exists>r. res = Inr r))"
  proof (cases res0)
    case (Inl e)
    have "useDataSources (Some t) g (Some gd) = Some (Inl e)"
      using res0 Inl by (simp add: useDataSources_throws[OF assms(1)])
    then show ?thesis using ok Inl by auto
  next
    case (Inr tr)
    have tr: "getTransitiveDependencies t g = Some (Inr tr)" using res0 Inr by simp
    show ?thesis
      unfolding useDataSources_selected[OF assms(1) tr]
      using tr glob bucket by simp
  qed
  then show ?thesis using fs gs ty gsid by blast
qed

theorem global_id_collision_witness:
  "(\<exists>r fs gs.
      useDataSources (Some ''form-t'') [(''form-t'', \<lparr>form_id = ''form-t'', form_name = ''Form T'', form_fields = [], dependencies = [''global-action-properties'']\<rparr>), (''global-action-properties'', \<lparr>form_id = ''global-action-properties'', form_name = ''Shadowed'', form_fields = [], dependencies = []\<rparr>)]
        (Some \<lparr>actionProperties = [''status'', ''created_at''], clientOrgProperties = [''org_name'']\<rparr>) = Some (Inr r)
      \<and> get (registerForms [(''form-t'', \<lparr>form_id = ''form-t'', form_name = ''Form T'', form_fields = [], dependencies = [''global-action-properties'']\<rparr>), (''global-action-properties'', \<lparr>form_id = ''global-action-properties'', form_name = ''Shadowed'', form_fields = [], dependencies = []\<rparr>)] []) ''global-action-properties'' = Some fs
      \<and> DataSource_type fs = FormT
      \<and> get (registerGlobals (Some \<lparr>actionProperties = [''status'', ''created_at''], clientOrgProperties = [''org_name'']\<rparr>)
              (registerForms [(''form-t'', \<lparr>form_id = ''form-t'', form_name = ''Form T'', form_fields = [], dependencies = [''global-action-properties'']\<rparr>), (''global-action-properties'', \<lparr>form_id = ''global-action-properties'', form_name = ''Shadowed'', form_fields = [], dependencies = []\<rparr>)] [])) ''global-action-properties'' = Some gs
      \<and> DataSource_type gs = GlobalT
      \<and> gs \<in> set (globalSources r)
      \<and> gs \<in> set (directDependencies r))
   \<and> useDataSources (Some ''form-t'') [(''form-t'', \<lparr>form_id = ''form-t'', form_name = ''Form T'', form_fields = [], dependencies = [''global-action-properties'']\<rparr>), (''global-action-properties'', \<lparr>form_id = ''global-action-properties'', form_name = ''Shadowed'', form_fields = [], dependencies = []\<rparr>)]
        (Some \<lparr>actionProperties = [''status'', ''created_at''], clientOrgProperties = [''org_name'']\<rparr>)
      = Some (Inr \<lparr>directDependencies = [GlobalDataSource \<lparr>actionProperties = [''status'', ''created_at''], clientOrgProperties = [''org_name'']\<rparr>],
              transitiveDependencies = [],
              globalSources = [GlobalDataSource \<lparr>actionProperties = [''status'', ''created_at''], clientOrgProperties = [''org_name'']\<rparr>,
                               OrganizationDataSource \<lparr>actionProperties = [''status'', ''created_at''], clientOrgProperties = [''org_name'']\<rparr>]\<rparr>)
   \<and> useDataSources (Some ''form-t'') [(''form-t'', \<lparr>form_id = ''form-t'', form_name = ''Form T'', form_fields = [], dependencies = [''form-b'']\<rparr>), (''form-b'', \<lparr>form_id = ''form-b'', form_name = ''Form B'', form_fields = [], dependencies = [''global-org-properties'']\<rparr>), (''global-org-properties'', \<lparr>form_id = ''global-org-properties'', form_name = ''Shadowed Org'', form_fields = [], dependencies = []\<rparr>)]
        (Some \<lparr>actionProperties = [''status'', ''created_at''], clientOrgProperties = [''org_name'']\<rparr>)
      = Some (Inr \<lparr>directDependencies = [FormDataSource ''form-b'' ''Form B'' (snd (''form-b'', \<lparr>form_id = ''form-b'', form_name = ''Form B'', form_fields = [], dependencies = [''global-org-properties'']\<rparr>))],
              transitiveDependencies = [OrganizationDataSource \<lparr>actionProperties = [''status'', ''created_at''], clientOrgProperties = [''org_name'']\<rparr>],
              globalSources = [OrganizationDataSource \<lparr>actionProperties = [''status'', ''created_at''], clientOrgProperties = [''org_name'']\<rparr>,
                               GlobalDataSource \<lparr>actionProperties = [''status'', ''created_at''], clientOrgProperties = [''org_name'']\<rparr>]\<rparr>)"
proof -
  let ?g = "[(''form-t'', \<lparr>form_id = ''form-t'', form_name = ''Form T'', form_fields = [], dependencies = [''global-action-properties'']\<rparr>), (''global-action-properties'', \<lparr>form_id = ''global-action-properties'', form_name = ''Shadowed'', form_fields = [], dependencies = []\<rparr>)]"
  have 1: "''form-t'' \<noteq> []" by simp
  have 2: "\<lparr>form_id = ''global-action-properties'', form_name = ''Shadowed'', form_fields = [], dependencies = []\<rparr> \<in> set (Object_values ?g)"
    by (simp add: Object_values_def)
  have 3: "form_id \<lparr>form_id = ''global-action-properties'', form_name = ''Shadowed'', form_fields = [], dependencies = []\<rparr> = ''global-action-properties''"
    by simp
  have 4: "''global-action-properties'' = ''global-action-properties''
      \<or> ''global-action-properties'' = ''global-org-properties''"
    by simp
  have 5: "''global-action-properties'' \<in> set (getDirectDependencies ''form-t'' ?g)"
    by code_simp
  have 6: "get_property ?g ''form-t'' \<noteq> Inherited \<and> no_inherited_names ?g"
    by code_simp
  have a: "\<exists>r fs gs.
      useDataSources (Some ''form-t'') ?g (Some \<lparr>actionProperties = [''status'', ''created_at''], clientOrgProperties = [''org_name'']\<rparr>) = Some (Inr r)
      \<and> get (registerForms ?g []) ''global-action-properties'' = Some fs
      \<and> DataSource_type fs = FormT
      \<and> get (registerGlobals (Some \<lparr>actionProperties = [''status'', ''created_at''], clientOrgProperties = [''org_name'']\<rparr>)
              (registerForms ?g [])) ''global-action-properties'' = Some gs
      \<and> DataSource_type gs = GlobalT
      \<and> gs \<in> set (globalSources r)
      \<and> gs \<in> set (directDependencies r)"
    using global_id_collision[OF 1 2 3 4, of "\<lparr>actionProperties = [''status'', ''created_at''], clientOrgProperties = [''org_name'']\<rparr>"] 5 6
    by blast
  have b: "useDataSources (Some ''form-t'') ?g (Some \<lparr>actionProperties = [''status'', ''created_at''], clientOrgProperties = [''org_name'']\<rparr>)
      = Some (Inr \<lparr>directDependencies = [GlobalDataSource \<lparr>actionProperties = [''status'', ''created_at''], clientOrgProperties = [''org_name'']\<rparr>],
              transitiveDependencies = [],
              globalSources = [GlobalDataSource \<lparr>actionProperties = [''status'', ''created_at''], clientOrgProperties = [''org_name'']\<rparr>,
                               OrganizationDataSource \<lparr>actionProperties = [''status'', ''created_at''], clientOrgProperties = [''org_name'']\<rparr>]\<rparr>)"
    by code_simp
  have c: "useDataSources (Some ''form-t'') [(''form-t'', \<lparr>form_id = ''form-t'', form_name = ''Form T'', form_fields = [], dependencies = [''form-b'']\<rparr>), (''form-b'', \<lparr>form_id = ''form-b'', form_name = ''Form B'', form_fields = [], dependencies = [''global-org-properties'']\<rparr>), (''global-org-properties'', \<lparr>form_id = ''global-org-properties'', form_name = ''Shadowed Org'', form_fields = [], dependencies = []\<rparr>)]
        (Some \<lparr>actionProperties = [''status'', ''created_at''], clientOrgProperties = [''org_name'']\<rparr>)
      = Some (Inr \<lparr>directDependencies = [FormDataSource ''form-b'' ''Form B'' (snd (''form-b'', \<lparr>form_id = ''form-b'', form_name = ''Form B'', form_fields = [], dependencies = [''global-org-properties'']\<rparr>))],
              transitiveDependencies = [OrganizationDataSource \<lparr>actionProperties = [''status'', ''created_at''], clientOrgProperties = [''org_name'']\<rparr>],
              globalSources = [OrganizationDataSource \<lparr>actionProperties = [''status'', ''created_at''], clientOrgProperties = [''org_name'']\<rparr>,
                               GlobalDataSource \<lparr>actionProperties = [''status'', ''created_at''], clientOrgProperties = [''org_name'']\<rparr>]\<rparr>)"
    by code_simp
  from a b c show ?thesis by blast
qed

theorem global_id_collision_empty_target_counterexample:
  "\<lparr>form_id = ''global-action-properties'', form_name = ''Shadowed'', form_fields = [], dependencies = []\<rparr> \<in> set (Object_values [([], \<lparr>form_id = [], form_name = ''Unnamed'', form_fields = [], dependencies = [''global-action-properties'']\<rparr>), (''global-action-properties'', \<lparr>form_id = ''global-action-properties'', form_name = ''Shadowed'', form_fields = [], dependencies = []\<rparr>)])
   \<and> form_id \<lparr>form_id = ''global-action-properties'', form_name = ''Shadowed'', form_fields = [], dependencies = []\<rparr> = ''global-action-properties''
   \<and> ''global-action-properties'' \<in> set (getDirectDependencies [] [([], \<lparr>form_id = [], form_name = ''Unnamed'', form_fields = [], dependencies = [''global-action-properties'']\<rparr>), (''global-action-properties'', \<lparr>form_id = ''global-action-properties'', form_name = ''Shadowed'', form_fields = [], dependencies = []\<rparr>)])
   \<and> useDataSources (Some []) [([], \<lparr>form_id = [], form_name = ''Unnamed'', form_fields = [], dependencies = [''global-action-properties'']\<rparr>), (''global-action-properties'', \<lparr>form_id = ''global-action-properties'', form_name = ''Shadowed'', form_fields = [], dependencies = []\<rparr>)]
        (Some \<lparr>actionProperties = [''status'', ''created_at''], clientOrgProperties = [''org_name'']\<rparr>)
      = Some (Inr \<lparr>directDependencies = [], transitiveDependencies = [], globalSources = []\<rparr>)"
  by code_simp

end
